theory Spec2Isabelle
  imports Complex_Main
begin

section \<open>JavaScript helpers\<close>

text \<open>
  The numbers of ForestScroller are modelled as \<open>real\<close>; counts of frames as \<open>nat\<close>;
  indices into the sparse \<open>images\<close> array as \<open>int\<close> (\<open>Math.floor\<close> of a number).
  \<open>a || d\<close> yields \<open>d\<close> when \<open>a\<close> is missing (\<open>None\<close>) or the falsy number 0.
\<close>

fun or_default :: "'a::zero option \<Rightarrow> 'a \<Rightarrow> 'a" where
  "or_default None d = d"
| "or_default (Some v) d = (if v = 0 then d else v)"

fun str_or_default :: "string option \<Rightarrow> string \<Rightarrow> string" where
  "str_or_default None d = d"
| "str_or_default (Some v) d = (if v = [] then d else v)"

text \<open>\<open>Math.round\<close> rounds to the nearest integer, ties towards plus infinity.\<close>

definition Math_round :: "real \<Rightarrow> int" where
  "Math_round x = \<lfloor>x + 1 / 2\<rfloor>"

section \<open>IEEE 754 binary64 arithmetic\<close>

text \<open>
  A JavaScript arithmetic operation yields the exact result rounded to the nearest
  double, ties to the double with an even significand. \<open>binade x\<close> is the exponent
  \<open>e\<close> with \<open>2^e \<le> |x| < 2^(e+1)\<close>, not below \<open>-1022\<close> (the subnormal range);
  the doubles of that binade are \<open>ulp x = 2^(e-52)\<close> apart, and \<open>fl64 x\<close> is the
  double nearest to the real \<open>x\<close>. Overflow to \<open>Infinity\<close> (at \<open>2^1024\<close>) and \<open>NaN\<close> are
  not modelled.
\<close>

definition round_half_even :: "real \<Rightarrow> int" where
  "round_half_even y =
     (let f = \<lfloor>y\<rfloor>
      in if y - of_int f < 1 / 2 then f
         else if 1 / 2 < y - of_int f then f + 1
         else if even f then f else f + 1)"

definition binade :: "real \<Rightarrow> int" where
  "binade x = max \<lfloor>log 2 \<bar>x\<bar>\<rfloor> (- 1022)"

definition ulp :: "real \<Rightarrow> real" where
  "ulp x = 2 powi (binade x - 52)"

definition fl64 :: "real \<Rightarrow> real" where
  "fl64 x = (if x = 0 then 0 else of_int (round_half_even (x / ulp x)) * ulp x)"

section \<open>ForestAmbient (src/DEPLOY.md)\<close>

text \<open>
  The arithmetic of this class is modelled in doubles: every operation of the source
  is followed by \<open>fl64\<close>, and a decimal literal stands for the double nearest to it
  (\<open>0.5\<close>, \<open>1\<close>, \<open>2\<close> and \<open>10\<close> are doubles). \<open>Math.abs\<close>, comparisons and assignments
  are exact.
\<close>

record ambient =
  scrollProgress :: real
  lightRayOpacity :: real
  velocityMultiplier :: real


record particle =
  p_x :: real
  p_y :: real
  p_speedX :: real
  p_speedY :: real
  p_rotation :: real
  p_rotationSpeed :: real
  p_depth :: real

text \<open>
  The right-hand sides of lines 586 and 587: the distance a particle moves in one tick,
  \<open>particle.speedX * (1 + particle.depth) * velocityFactor\<close> and the same with
  \<open>speedY\<close>.
\<close>

definition particle_stepX :: "real \<Rightarrow> particle \<Rightarrow> real" where
  "particle_stepX vm p = fl64 (fl64 (p_speedX p * fl64 (1 + p_depth p)) * vm)"

definition particle_stepY :: "real \<Rightarrow> particle \<Rightarrow> real" where
  "particle_stepY vm p = fl64 (fl64 (p_speedY p * fl64 (1 + p_depth p)) * vm)"

text \<open>
  One iteration of the \<open>forEach\<close> body of \<open>drawParticles\<close> (lines 584-596): the position
  update and the three wrap tests, in the order of the source. \<open>W\<close> and \<open>H\<close> are
  \<open>window.innerWidth\<close> and \<open>window.innerHeight\<close>, \<open>vm\<close> is \<open>this.velocityMultiplier\<close>
  and \<open>r\<close> is the value \<open>Math.random()\<close> returns if the third test fires. The
  drawing calls that follow do not change the particle.
\<close>

definition particle_tick :: "real \<Rightarrow> real \<Rightarrow> real \<Rightarrow> real \<Rightarrow> particle \<Rightarrow> particle" where
  "particle_tick W H vm r p =
     (let p1 = p\<lparr>p_x := fl64 (p_x p + particle_stepX vm p)\<rparr>;
          p2 = p1\<lparr>p_y := fl64 (p_y p1 + particle_stepY vm p1)\<rparr>;
          p3 = p2\<lparr>p_rotation := fl64 (p_rotation p2 + fl64 (p_rotationSpeed p2 * vm))\<rparr>;
          p4 = (if p_x p3 < - 10 then p3\<lparr>p_x := fl64 (W + 10)\<rparr> else p3);
          p5 = (if p_x p4 > fl64 (W + 10) then p4\<lparr>p_x := - 10\<rparr> else p4)
      in if p_y p5 > fl64 (H + 10) then p5\<lparr>p_y := - 10, p_x := fl64 (r * W)\<rparr> else p5)"










fun particle_ticks ::
  "real \<Rightarrow> real \<Rightarrow> (nat \<Rightarrow> real) \<Rightarrow> (nat \<Rightarrow> real) \<Rightarrow> nat \<Rightarrow> particle \<Rightarrow> particle" where
  "particle_ticks W H vms rs 0 p = p"
| "particle_ticks W H vms rs (Suc n) p =
     particle_tick W H (vms n) (rs n) (particle_ticks W H vms rs n p)"


section \<open>ForestScroller (src/assets/js/forest-scroller.js)\<close>

subsection \<open>Data\<close>

record options =
  opt_canvasId :: "string option"
  opt_imagePath :: "string option"
  opt_imagePrefix :: "string option"
  opt_imageFormat :: "string option"
  opt_totalFrames :: "nat option"
  opt_smoothing :: "real option"
  opt_preloadCount :: "nat option"
  opt_mobileFrameCount :: "nat option"
  opt_mobileBreakpoint :: "real option"

record config =
  canvasId :: string
  imagePath :: string
  imagePrefix :: string
  imageFormat :: string
  totalFrames :: nat
  smoothing :: real
  preloadCount :: nat
  mobileFrameCount :: nat
  mobileBreakpoint :: real

record image =
  img_width :: real
  img_height :: real
  img_complete :: bool
  img_naturalWidth :: real

text \<open>
  What the code reads from \<open>window\<close>, \<open>document\<close> and the canvas element's layout.
\<close>

record viewport =
  innerWidth :: real
  innerHeight :: real
  docScrollHeight :: real
  pageYOffset :: real
  devicePixelRatio :: real
  clientWidth :: real
  clientHeight :: real

text \<open>
  What initialization meets outside the object: whether the canvas element exists,
  whether the WebP probe decodes, and what loading frame \<open>index\<close> in a given format
  yields (\<open>None\<close>: the image's \<open>onerror\<close> fires).
\<close>

record environment =
  canvasPresent :: bool
  webpDecodes :: bool
  fetch :: "string \<Rightarrow> int \<Rightarrow> image option"

datatype error = CanvasNotFound | FailedToLoadFrame int

text \<open>The points where the code invokes a configured callback, in order.\<close>

datatype callback =
    OnProgress real nat nat
  | OnLoad
  | OnReady
  | OnError error

text \<open>
  The canvas content is the list of paint operations applied since the canvas was last
  cleared, oldest first: \<open>DrawImage index alpha offsetX offsetY width height\<close>, the green
  wash \<open>FillGreen intensity width height\<close> (intensity \<open>None\<close>: the colour string holds
  NaN or Infinity and is not a colour) and the radial highlight \<open>FillGlow width height\<close>.
\<close>

datatype paint =
    DrawImage int real real real real real
  | FillGreen "real option" real real
  | FillGlow real real

datatype fps_reading = Fps real | FpsInfinity

record scroller =
  cfg :: config
  canvas :: bool
  ctx :: bool
  canvasWidth :: real
  canvasHeight :: real
  images :: "int \<Rightarrow> image option"
  loadedImages :: "int set"
  currentFrame :: real
  targetFrame :: real
  previousFrame :: real
  isLoading :: bool
  loadedCount :: nat
  isMobile :: bool
  animationFrameId :: bool
  loopScheduled :: bool
  scrollListening :: bool
  resizeListening :: bool
  supportsWebP :: "bool option"
  velocity :: real
  lastScrollY :: real
  scrollVelocity :: real
  lastFrameTime :: real
  fps :: fps_reading
  layers :: "paint list"
  calls :: "callback list"

record metrics =
  m_fps :: "int option"
  m_currentFrame :: int
  m_totalFrames :: nat
  m_loadedFrames :: nat
  m_progress :: "real option"
  m_isMobile :: bool

subsection \<open>Construction (lines 10-53)\<close>

definition constructor :: "options \<Rightarrow> scroller" where
  "constructor opts =
     \<lparr>cfg = \<lparr>canvasId = str_or_default (opt_canvasId opts) ''forest-canvas'',
             imagePath = str_or_default (opt_imagePath opts) ''assets/images/forest-sequence/'',
             imagePrefix = str_or_default (opt_imagePrefix opts) ''frame-'',
             imageFormat = str_or_default (opt_imageFormat opts) ''webp'',
             totalFrames = or_default (opt_totalFrames opts) 120,
             smoothing = or_default (opt_smoothing opts) (1 / 10),
             preloadCount = or_default (opt_preloadCount opts) 5,
             mobileFrameCount = or_default (opt_mobileFrameCount opts) 60,
             mobileBreakpoint = or_default (opt_mobileBreakpoint opts) 768\<rparr>,
      canvas = False, ctx = False, canvasWidth = 0, canvasHeight = 0,
      images = (\<lambda>_. None), loadedImages = {},
      currentFrame = 0, targetFrame = 0, previousFrame = 0,
      isLoading = True, loadedCount = 0, isMobile = False,
      animationFrameId = False, loopScheduled = False, scrollListening = False, resizeListening = False,
      supportsWebP = None,
      velocity = 0, lastScrollY = 0, scrollVelocity = 0,
      lastFrameTime = 0, fps = Fps 60, layers = [], calls = []\<rparr>"

subsection \<open>Drawing (lines 389-490)\<close>

text \<open>
  \<open>calculateCoverDimensions\<close> returns (drawWidth, drawHeight, offsetX, offsetY). The
  quotients are those of the reals: for a canvas or an image of height 0 JavaScript
  computes with Infinity or NaN instead. No statement below depends on these values.
\<close>

definition calculateCoverDimensions :: "real \<Rightarrow> real \<Rightarrow> image \<Rightarrow> real \<times> real \<times> real \<times> real" where
  "calculateCoverDimensions cw ch img =
     (let canvasRatio = cw / ch; imgRatio = img_width img / img_height img
      in if canvasRatio > imgRatio
         then (cw, cw / imgRatio, 0, (ch - cw / imgRatio) / 2)
         else (ch * imgRatio, ch, (cw - ch * imgRatio) / 2, 0))"

text \<open>
  \<open>applyDepthGrading(frame)\<close>; with a single frame the quotient \<open>frame / (totalFrames - 1)\<close>
  is NaN or Infinity in JavaScript.
\<close>

definition applyDepthGrading :: "viewport \<Rightarrow> real \<Rightarrow> scroller \<Rightarrow> paint list" where
  "applyDepthGrading vp frame s =
     (let greenIntensity =
            (if real (totalFrames (cfg s)) - 1 = 0 then None
             else Some (3 / 100 + frame / (real (totalFrames (cfg s)) - 1) * (2 / 100)))
      in [FillGreen greenIntensity (clientWidth vp) (clientHeight vp),
          FillGlow (clientWidth vp) (clientHeight vp)])"

text \<open>The test \<open>img.complete && img.naturalWidth\<close> of lines 400 and 416.\<close>

definition usable :: "image \<Rightarrow> bool" where
  "usable img = (img_complete img \<and> img_naturalWidth img \<noteq> 0)"

text \<open>
  What one call of \<open>drawFrameWithBlending(exactFrame)\<close> paints after clearing the canvas;
  \<open>None\<close> when the call returns before drawing (no context, or the first frame is not
  loaded and complete).
\<close>

definition blendedLayers :: "viewport \<Rightarrow> real \<Rightarrow> scroller \<Rightarrow> paint list option" where
  "blendedLayers vp exactFrame s =
     (if \<not> ctx s then None
      else
        let frameIndex1 = \<lfloor>exactFrame\<rfloor>;
            frameIndex2 = min \<lceil>exactFrame\<rceil> (int (totalFrames (cfg s)) - 1);
            blendFactor = exactFrame - of_int frameIndex1
        in case images s frameIndex1 of
             None \<Rightarrow> None
           | Some img1 \<Rightarrow>
               if \<not> usable img1 then None
               else
                 case calculateCoverDimensions (clientWidth vp) (clientHeight vp) img1 of
                   (drawWidth, drawHeight, offsetX, offsetY) \<Rightarrow>
                     Some
                       ([DrawImage frameIndex1 1 offsetX offsetY drawWidth drawHeight]
                        @ (case images s frameIndex2 of
                             None \<Rightarrow> []
                           | Some img2 \<Rightarrow>
                               if frameIndex1 \<noteq> frameIndex2 \<and> blendFactor > 1 / 100 \<and> usable img2
                               then [DrawImage frameIndex2 blendFactor offsetX offsetY drawWidth drawHeight]
                               else [])
                        @ applyDepthGrading vp exactFrame s))"

definition drawFrameWithBlending :: "viewport \<Rightarrow> real \<Rightarrow> scroller \<Rightarrow> scroller" where
  "drawFrameWithBlending vp exactFrame s =
     (case blendedLayers vp exactFrame s of
        None \<Rightarrow> s
      | Some painted \<Rightarrow> s\<lparr>layers := painted\<rparr>)"

definition drawFrame :: "viewport \<Rightarrow> real \<Rightarrow> scroller \<Rightarrow> scroller" where
  "drawFrame vp index s = drawFrameWithBlending vp index s"

text \<open>\<open>resizeCanvas\<close> (lines 145-170); assigning the canvas width clears the canvas.\<close>

definition resizeCanvas :: "viewport \<Rightarrow> scroller \<Rightarrow> scroller" where
  "resizeCanvas vp s =
     (if \<not> canvas s then s
      else
        let dpr = (if devicePixelRatio vp = 0 then 1 else devicePixelRatio vp);
            s1 = s\<lparr>canvasWidth := clientWidth vp * dpr,
                   canvasHeight := clientHeight vp * dpr,
                   layers := []\<rparr>
        in case images s1 \<lfloor>currentFrame s1\<rfloor> of
             None \<Rightarrow> s1
           | Some _ \<Rightarrow> drawFrameWithBlending vp (currentFrame s1) s1)"

definition setupCanvas :: "environment \<Rightarrow> viewport \<Rightarrow> scroller \<Rightarrow> error + scroller" where
  "setupCanvas env vp s =
     (if \<not> canvasPresent env then Inl CanvasNotFound
      else Inr (resizeCanvas vp (s\<lparr>canvas := True, ctx := True\<rparr>)))"

subsection \<open>Loading (lines 175-252)\<close>

definition updateProgress :: "scroller \<Rightarrow> scroller" where
  "updateProgress s =
     (let progress = real (loadedCount s) / real (totalFrames (cfg s)) * 100;
          s1 = s\<lparr>calls := calls s @ [OnProgress progress (loadedCount s) (totalFrames (cfg s))]\<rparr>
      in if loadedCount s1 = totalFrames (cfg s1) then s1\<lparr>calls := calls s1 @ [OnLoad]\<rparr> else s1)"

text \<open>
  \<open>loadImage(index)\<close>: the promise resolves (\<open>Inr\<close>, with the state its \<open>onload\<close> handler
  leaves) or rejects (\<open>Inl\<close>, the state untouched).
\<close>

definition loadImage :: "environment \<Rightarrow> int \<Rightarrow> scroller \<Rightarrow> error + scroller" where
  "loadImage env index s =
     (if index \<in> loadedImages s then Inr s
      else
        case fetch env (imageFormat (cfg s)) index of
          Some img \<Rightarrow>
            Inr (updateProgress
                  (s\<lparr>images := (images s)(index := Some img),
                     loadedImages := insert index (loadedImages s),
                     loadedCount := loadedCount s + 1\<rparr>))
        | None \<Rightarrow> Inl (FailedToLoadFrame index))"

text \<open>
  \<open>for (...) await this.loadImage(frameIndex)\<close>: one load after the other; the first
  rejection is thrown and the later loads are never requested. The result pairs the
  thrown error, if any, with the state at that moment.
\<close>

fun await_each :: "environment \<Rightarrow> int list \<Rightarrow> scroller \<Rightarrow> error option \<times> scroller" where
  "await_each env [] s = (None, s)"
| "await_each env (i # rest) s =
     (case loadImage env i s of
        Inl e \<Rightarrow> (Some e, s)
      | Inr s' \<Rightarrow> await_each env rest s')"

text \<open>
  \<open>await Promise.all(loadPromises)\<close>: every load has been requested before the await;
  the await throws as soon as one promise rejects, and the other loads still settle and
  run their handlers. The model settles the loads in index order and returns the state
  after all have settled together with the first rejection.
\<close>

fun promise_all :: "environment \<Rightarrow> int list \<Rightarrow> scroller \<Rightarrow> error option \<times> scroller" where
  "promise_all env [] s = (None, s)"
| "promise_all env (i # rest) s =
     (case loadImage env i s of
        Inl e \<Rightarrow> (Some e, snd (promise_all env rest s))
      | Inr s' \<Rightarrow> promise_all env rest s')"

definition priorityFrames :: "scroller \<Rightarrow> int list" where
  "priorityFrames s =
     [0, \<lfloor>real (totalFrames (cfg s)) / 2\<rfloor>, int (totalFrames (cfg s)) - 1]"

definition remainingFrames :: "scroller \<Rightarrow> int list" where
  "remainingFrames s =
     filter (\<lambda>i. i \<notin> set (priorityFrames s)) (map int [0 ..< totalFrames (cfg s)])"

definition preloadImages :: "environment \<Rightarrow> viewport \<Rightarrow> scroller \<Rightarrow> error option \<times> scroller" where
  "preloadImages env vp s =
     (case await_each env (priorityFrames s) s of
        (Some e, s1) \<Rightarrow> (Some e, s1)
      | (None, s1) \<Rightarrow>
          let s2 = (case images s1 0 of None \<Rightarrow> s1 | Some _ \<Rightarrow> drawFrame vp 0 s1)
          in promise_all env (remainingFrames s2) s2)"

subsection \<open>Scroll mapping (lines 257-328)\<close>

definition easeInOutCubic :: "real \<Rightarrow> real" where
  "easeInOutCubic t =
     (if t < 1 / 2 then 4 * t * t * t else 1 - (- 2 * t + 2) ^ 3 / 2)"

definition lerp :: "real \<Rightarrow> real \<Rightarrow> real \<Rightarrow> real" where
  "lerp start end' factor = start + (end' - start) * factor"

text \<open>
  The loop of \<open>lazyLoadNearbyFrames\<close>; a rejected load is swallowed by \<open>.catch\<close>. The
  load requested here is settled at once in the model.
\<close>

fun lazy_loop :: "environment \<Rightarrow> int list \<Rightarrow> scroller \<Rightarrow> scroller" where
  "lazy_loop env [] s = s"
| "lazy_loop env (i # rest) s =
     lazy_loop env rest
       (if i \<in> loadedImages s then s
        else case loadImage env i s of Inl _ \<Rightarrow> s | Inr s' \<Rightarrow> s')"

definition lazyLoadNearbyFrames :: "environment \<Rightarrow> int \<Rightarrow> scroller \<Rightarrow> scroller" where
  "lazyLoadNearbyFrames env currentIndex s =
     lazy_loop env
       [currentIndex ..
          min (currentIndex + int (preloadCount (cfg s))) (int (totalFrames (cfg s))) - 1] s"

text \<open>The normalized scroll progress of line 282.\<close>

definition scrollProgressOf :: "viewport \<Rightarrow> real" where
  "scrollProgressOf vp =
     (let scrollHeight = docScrollHeight vp - innerHeight vp;
          scrolled = pageYOffset vp
      in if scrollHeight > 0 then max 0 (min 1 (scrolled / scrollHeight)) else 0)"

text \<open>The target frame of line 293 for an eased progress value.\<close>

definition targetFrameOf :: "nat \<Rightarrow> real \<Rightarrow> real" where
  "targetFrameOf n p = easeInOutCubic p * (real n - 1)"

definition updateScrollPosition :: "environment \<Rightarrow> viewport \<Rightarrow> scroller \<Rightarrow> scroller" where
  "updateScrollPosition env vp s =
     (let scrolled = pageYOffset vp;
          scrollProgress = scrollProgressOf vp;
          deltaScroll = scrolled - lastScrollY s;
          s1 = s\<lparr>scrollVelocity := \<bar>deltaScroll\<bar>, lastScrollY := scrolled\<rparr>;
          s2 = s1\<lparr>targetFrame := targetFrameOf (totalFrames (cfg s1)) scrollProgress\<rparr>
      in lazyLoadNearbyFrames env \<lfloor>targetFrame s2\<rfloor> s2)"

definition setupScrollListener :: "environment \<Rightarrow> viewport \<Rightarrow> scroller \<Rightarrow> scroller" where
  "setupScrollListener env vp s = updateScrollPosition env vp (s\<lparr>scrollListening := True\<rparr>)"

definition setupResizeListener :: "scroller \<Rightarrow> scroller" where
  "setupResizeListener s = s\<lparr>resizeListening := True\<rparr>"

subsection \<open>The draw loop (lines 349-384)\<close>

text \<open>
  \<open>animationFrameId\<close> tells whether the field holds a handle (is not \<open>null\<close>),
  \<open>loopScheduled\<close> whether the \<open>animate\<close> callback is scheduled with the browser.
\<close>

definition startAnimationLoop :: "scroller \<Rightarrow> scroller" where
  "startAnimationLoop s = s\<lparr>animationFrameId := True, loopScheduled := True\<rparr>"

text \<open>
  One run of the \<open>animate\<close> callback with time stamp \<open>ts\<close>. \<open>1000 / delta\<close> is Infinity
  in JavaScript for \<open>delta = 0\<close>. \<open>velocity1, velocity2\<close> and \<open>frame1, frame2, frame3\<close>
  are the successive values the callback assigns to \<open>this.velocity\<close> and
  \<open>this.currentFrame\<close>.
\<close>

definition animate :: "viewport \<Rightarrow> real \<Rightarrow> scroller \<Rightarrow> scroller" where
  "animate vp ts s =
     (let fps1 = (if lastFrameTime s \<noteq> 0
                  then (if ts - lastFrameTime s = 0 then FpsInfinity
                        else Fps (1000 / (ts - lastFrameTime s)))
                  else fps s);
          adaptiveSmoothness = (if scrollVelocity s > 50 then 12 / 100 else 6 / 100);
          diff = targetFrame s - currentFrame s;
          velocity1 = velocity s + diff * adaptiveSmoothness;
          velocity2 = velocity1 * (75 / 100);
          frame1 = currentFrame s + velocity2;
          frame2 = max 0 (min frame1 (real (totalFrames (cfg s)) - 1));
          velocityThreshold = 5 / 100;
          frame3 = (if \<bar>velocity2\<bar> < velocityThreshold
                    then of_int (Math_round frame2) else frame2)
      in drawFrameWithBlending vp frame3
           (s\<lparr>fps := fps1, lastFrameTime := ts, velocity := velocity2, currentFrame := frame3\<rparr>))"

subsection \<open>Initialization (lines 58-106)\<close>

text \<open>Lines 62-69: device detection and the frame count for mobile.\<close>

definition detectDevice :: "viewport \<Rightarrow> scroller \<Rightarrow> scroller" where
  "detectDevice vp s =
     (let mobile = (innerWidth vp \<le> mobileBreakpoint (cfg s))
      in if mobile
         then s\<lparr>isMobile := mobile,
                cfg := (cfg s)\<lparr>totalFrames := mobileFrameCount (cfg s)\<rparr>\<rparr>
         else s\<lparr>isMobile := mobile\<rparr>)"

text \<open>Lines 71-76: the WebP probe and the fallback to JPG.\<close>

definition selectFormat :: "environment \<Rightarrow> scroller \<Rightarrow> scroller" where
  "selectFormat env s =
     (if webpDecodes env then s\<lparr>supportsWebP := Some True\<rparr>
      else s\<lparr>supportsWebP := Some False, cfg := (cfg s)\<lparr>imageFormat := ''jpg''\<rparr>\<rparr>)"

text \<open>Lines 84-97: what \<open>init\<close> does once the preload has completed.\<close>

definition finishInit :: "environment \<Rightarrow> viewport \<Rightarrow> scroller \<Rightarrow> scroller" where
  "finishInit env vp s =
     (let s1 = setupScrollListener env vp s;
          s2 = startAnimationLoop s1;
          s3 = setupResizeListener s2;
          s4 = s3\<lparr>isLoading := False\<rparr>
      in s4\<lparr>calls := calls s4 @ [OnReady]\<rparr>)"

text \<open>
  \<open>init\<close> runs its awaited steps in order; an exception thrown by \<open>setupCanvas\<close> or
  \<open>preloadImages\<close> skips the rest of the \<open>try\<close> block and reaches \<open>onError\<close>. When
  \<open>Promise.all\<close> rejects, the state shown is the one after the other loads have
  settled too.
\<close>

definition init :: "environment \<Rightarrow> viewport \<Rightarrow> scroller \<Rightarrow> scroller" where
  "init env vp s =
     (let s1 = selectFormat env (detectDevice vp s)
      in case setupCanvas env vp s1 of
           Inl e \<Rightarrow> s1\<lparr>calls := calls s1 @ [OnError e]\<rparr>
         | Inr s2 \<Rightarrow>
             (case preloadImages env vp s2 of
                (Some e, s3) \<Rightarrow> s3\<lparr>calls := calls s3 @ [OnError e]\<rparr>
              | (None, s3) \<Rightarrow> finishInit env vp s3))"

text \<open>The state in which \<open>init\<close> calls \<open>preloadImages\<close> when the canvas exists.\<close>

definition beforePreload :: "environment \<Rightarrow> viewport \<Rightarrow> scroller \<Rightarrow> scroller" where
  "beforePreload env vp s =
     resizeCanvas vp ((selectFormat env (detectDevice vp s))\<lparr>canvas := True, ctx := True\<rparr>)"

text \<open>\<open>new ForestScroller(options)\<close>: the constructor ends by calling \<open>init\<close>.\<close>

definition new_ForestScroller :: "environment \<Rightarrow> viewport \<Rightarrow> options \<Rightarrow> scroller" where
  "new_ForestScroller env vp opts = init env vp (constructor opts)"

subsection \<open>Public operations (lines 495-575)\<close>

text \<open>
  \<open>getProgress()\<close>; \<open>None\<close> stands for the NaN or Infinity that the quotient is in
  JavaScript when there is a single frame.
\<close>

definition getProgress :: "scroller \<Rightarrow> real option" where
  "getProgress s =
     (if real (totalFrames (cfg s)) - 1 = 0 then None
      else Some (currentFrame s / (real (totalFrames (cfg s)) - 1)))"

definition jumpToFrame :: "viewport \<Rightarrow> real \<Rightarrow> scroller \<Rightarrow> scroller" where
  "jumpToFrame vp frameIndex s =
     (let clampedIndex = max 0 (min frameIndex (real (totalFrames (cfg s)) - 1));
          s1 = s\<lparr>currentFrame := clampedIndex\<rparr>;
          s2 = s1\<lparr>targetFrame := clampedIndex\<rparr>
      in drawFrame vp (of_int \<lfloor>clampedIndex\<rfloor>) s2)"

definition jumpToProgress :: "viewport \<Rightarrow> real \<Rightarrow> scroller \<Rightarrow> scroller" where
  "jumpToProgress vp percentage s =
     (let frame = (percentage / 100) * (real (totalFrames (cfg s)) - 1)
      in jumpToFrame vp frame s)"

definition pause :: "scroller \<Rightarrow> scroller" where
  "pause s =
     (if animationFrameId s then s\<lparr>loopScheduled := False, animationFrameId := False\<rparr> else s)"

definition resume :: "scroller \<Rightarrow> scroller" where
  "resume s = (if \<not> animationFrameId s then startAnimationLoop s else s)"

text \<open>\<open>destroy\<close> cancels the scheduled callback and keeps the handle.\<close>

definition destroy :: "scroller \<Rightarrow> scroller" where
  "destroy s =
     (let s0 = (if animationFrameId s then s\<lparr>loopScheduled := False\<rparr> else s);
          s1 = s0\<lparr>images := (\<lambda>_. None), loadedImages := {}\<rparr>;
          s2 = (if ctx s1 \<and> canvas s1 then s1\<lparr>layers := []\<rparr> else s1)
      in s2\<lparr>ctx := False, canvas := False\<rparr>)"

definition getMetrics :: "scroller \<Rightarrow> metrics" where
  "getMetrics s =
     \<lparr>m_fps = (case fps s of Fps x \<Rightarrow> Some (Math_round x) | FpsInfinity \<Rightarrow> None),
      m_currentFrame = \<lfloor>currentFrame s\<rfloor>,
      m_totalFrames = totalFrames (cfg s),
      m_loadedFrames = loadedCount s,
      m_progress = getProgress s,
      m_isMobile = isMobile s\<rparr>"

subsection \<open>Sessions\<close>

text \<open>
  What can happen to a scroller after construction: an animation frame (delivered only
  while the loop is scheduled), a scroll or resize event (delivered only once the
  listener is attached), and the public operations.
\<close>

datatype event =
    Frame viewport real
  | Scroll viewport
  | Resize viewport
  | JumpToFrame viewport real
  | JumpToProgress viewport real
  | Pause
  | Resume
  | Destroy

fun apply_event :: "environment \<Rightarrow> event \<Rightarrow> scroller \<Rightarrow> scroller" where
  "apply_event env (Frame vp ts) s = (if loopScheduled s then animate vp ts s else s)"
| "apply_event env (Scroll vp) s = (if scrollListening s then updateScrollPosition env vp s else s)"
| "apply_event env (Resize vp) s = (if resizeListening s then resizeCanvas vp s else s)"
| "apply_event env (JumpToFrame vp x) s = jumpToFrame vp x s"
| "apply_event env (JumpToProgress vp x) s = jumpToProgress vp x s"
| "apply_event env Pause s = pause s"
| "apply_event env Resume s = resume s"
| "apply_event env Destroy s = destroy s"

fun run :: "environment \<Rightarrow> event list \<Rightarrow> scroller \<Rightarrow> scroller" where
  "run env [] s = s"
| "run env (e # es) s = run env es (apply_event env e s)"


text \<open>The state after \<open>n\<close> consecutive animation frames with time stamps \<open>ts 0, ts 1, ...\<close>.\<close>

fun frames :: "viewport \<Rightarrow> (nat \<Rightarrow> real) \<Rightarrow> nat \<Rightarrow> scroller \<Rightarrow> scroller" where
  "frames vp ts 0 s = s"
| "frames vp ts (Suc n) s = animate vp (ts n) (frames vp ts n s)"

text \<open>The playback has come to rest on the frame nearest to the target.\<close>

definition settled :: "scroller \<Rightarrow> bool" where
  "settled s =
     (\<bar>velocity s\<bar> < 5 / 100 \<and> currentFrame s = of_int (Math_round (targetFrame s)))"

text \<open>The PlaybackState range of the current frame.\<close>

definition frame_in_range :: "scroller \<Rightarrow> bool" where
  "frame_in_range s =
     (0 \<le> currentFrame s \<and> currentFrame s \<le> real (totalFrames (cfg s)) - 1)"

text \<open>What an observer of the player sees: the playback state, the canvas and the metrics.\<close>

definition observe :: "scroller \<Rightarrow> real \<times> real \<times> real \<times> paint list \<times> metrics" where
  "observe s = (velocity s, currentFrame s, targetFrame s, layers s, getMetrics s)"

definition with_smoothing :: "real \<Rightarrow> scroller \<Rightarrow> scroller" where
  "with_smoothing x s = s\<lparr>cfg := (cfg s)\<lparr>smoothing := x\<rparr>\<rparr>"

text \<open>The callbacks that report how initialization ended.\<close>

fun is_outcome :: "callback \<Rightarrow> bool" where
  "is_outcome OnReady = True"
| "is_outcome (OnError e) = True"
| "is_outcome (OnProgress p k n) = False"
| "is_outcome OnLoad = False"

definition outcome :: "scroller \<Rightarrow> callback list" where
  "outcome s = filter is_outcome (calls s)"

text \<open>
  Two states that differ at most in what image loading and drawing touch: the image
  table, the set of loaded indices, the counter, the progress callbacks and the canvas.
\<close>

definition load_related :: "scroller \<Rightarrow> scroller \<Rightarrow> bool" where
  "load_related s s' =
     (cfg s' = cfg s \<and> canvas s' = canvas s \<and> ctx s' = ctx s
      \<and> currentFrame s' = currentFrame s \<and> targetFrame s' = targetFrame s
      \<and> previousFrame s' = previousFrame s \<and> isLoading s' = isLoading s
      \<and> isMobile s' = isMobile s \<and> animationFrameId s' = animationFrameId s
      \<and> loopScheduled s' = loopScheduled s \<and> scrollListening s' = scrollListening s
      \<and> resizeListening s' = resizeListening s \<and> supportsWebP s' = supportsWebP s
      \<and> velocity s' = velocity s \<and> lastScrollY s' = lastScrollY s
      \<and> scrollVelocity s' = scrollVelocity s \<and> lastFrameTime s' = lastFrameTime s
      \<and> fps s' = fps s \<and> outcome s' = outcome s)"

text \<open>
  The load bookkeeping agrees with the server: the counter is the number of loaded
  indices, and every loaded index is one whose file the server delivers.
\<close>

definition loads_consistent :: "environment \<Rightarrow> scroller \<Rightarrow> bool" where
  "loads_consistent env s =
     (finite (loadedImages s) \<and> loadedCount s = card (loadedImages s)
      \<and> (\<forall>i \<in> loadedImages s. fetch env (imageFormat (cfg s)) i \<noteq> None))"


subsection \<open>Sample inputs\<close>

definition default_options :: options where
  "default_options =
     \<lparr>opt_canvasId = None, opt_imagePath = None, opt_imagePrefix = None,
      opt_imageFormat = None, opt_totalFrames = None, opt_smoothing = None,
      opt_preloadCount = None, opt_mobileFrameCount = None, opt_mobileBreakpoint = None\<rparr>"

text \<open>A desktop window of width \<open>w\<close>, scrolled to the middle of a page with 3000 px to scroll.\<close>

definition window_of_width :: "real \<Rightarrow> viewport" where
  "window_of_width w =
     \<lparr>innerWidth = w, innerHeight = 768, docScrollHeight = 3768, pageYOffset = 1500,
      devicePixelRatio = 1, clientWidth = w, clientHeight = 768\<rparr>"

definition desktop :: viewport where
  "desktop = window_of_width 1024"

text \<open>A page that is no taller than the window.\<close>

definition short_page :: viewport where
  "short_page = (window_of_width 1024)\<lparr>docScrollHeight := 600, pageYOffset := 0\<rparr>"

definition sample_image :: image where
  "sample_image = \<lparr>img_width = 1920, img_height = 1080, img_complete = True, img_naturalWidth = 1920\<rparr>"

definition all_frames_env :: environment where
  "all_frames_env =
     \<lparr>canvasPresent = True, webpDecodes = True, fetch = (\<lambda>fmt i. Some sample_image)\<rparr>"

text \<open>A server on which the file of frame index \<open>k\<close> is missing.\<close>

definition missing_frame_env :: "int \<Rightarrow> environment" where
  "missing_frame_env k =
     \<lparr>canvasPresent = True, webpDecodes = True,
      fetch = (\<lambda>fmt i. if i = k then None else Some sample_image)\<rparr>"


text \<open>
  A particle that the bottom wrap has just put at the left edge (\<open>Math.random()\<close>
  returned 0), of depth 0 and drifting slowly to the left.
\<close>

definition drifting_particle :: particle where
  "drifting_particle =
     \<lparr>p_x = 0, p_y = - 10, p_speedX = - 1 / 1024, p_speedY = 1 / 4,
      p_rotation = 0, p_rotationSpeed = 0, p_depth = 0\<rparr>"



section \<open>Properties\<close>


subsection \<open>Image loads leave the playback state alone\<close>

lemma load_related_refl: "load_related s s"
  by (simp add: load_related_def)

lemma load_related_trans: "load_related s t \<Longrightarrow> load_related t u \<Longrightarrow> load_related s u"
  by (simp add: load_related_def)

lemma updateProgress_related: "load_related s (updateProgress s)"
  by (simp add: load_related_def outcome_def updateProgress_def Let_def)

lemma loadImage_related: "loadImage env i s = Inr s' \<Longrightarrow> load_related s s'"
  unfolding loadImage_def
  by (auto split: if_splits option.splits simp: load_related_def outcome_def updateProgress_def Let_def)

lemma lazy_loop_related: "load_related s (lazy_loop env xs s)"
proof (induction xs arbitrary: s)
  case Nil
  show ?case by (simp add: load_related_refl)
next
  case (Cons i rest)
  show ?case
  proof (cases "i \<in> loadedImages s")
    case True
    then show ?thesis using Cons.IH by simp
  next
    case False
    show ?thesis
    proof (cases "loadImage env i s")
      case (Inl e)
      then show ?thesis using False Cons.IH by simp
    next
      case (Inr s')
      then show ?thesis
        using False Cons.IH[of s'] loadImage_related[OF Inr] load_related_trans by simp
    qed
  qed
qed

subsection \<open>Rounding to the nearest double\<close>


lemma rhe_of_int: "round_half_even (of_int n) = n"
  by (simp add: round_half_even_def Let_def)






lemma two_powr_int: "(2::real) powr real_of_int k = 2 powi k"
  by (rule powr_real_of_int') simp_all


lemma binade_lower: "x \<noteq> 0 \<Longrightarrow> - 1022 < binade x \<Longrightarrow> 2 powi (binade x) \<le> \<bar>x\<bar>"
proof -
  assume x: "x \<noteq> 0" and b: "- 1022 < binade x"
  let ?k = "\<lfloor>log 2 \<bar>x\<bar>\<rfloor>"
  have k: "binade x = ?k" using b unfolding binade_def by linarith
  have "2 powr real_of_int ?k \<le> \<bar>x\<bar> \<and> \<bar>x\<bar> < 2 powr real_of_int (?k + 1)"
    using floor_log_eq_powr_iff[of "\<bar>x\<bar>" 2 ?k] x by simp
  then show ?thesis unfolding k by (simp only: two_powr_int)
qed



lemma binade_eq:
  assumes "2 powi e \<le> \<bar>x\<bar>" and "\<bar>x\<bar> < 2 powi (e + 1)" and "- 1022 \<le> e"
  shows "binade x = e"
proof -
  have x: "0 < \<bar>x\<bar>" using assms(1) zero_less_power_int[of "2::real" e] by linarith
  have "\<lfloor>log 2 \<bar>x\<bar>\<rfloor> = e"
    using floor_log_eq_powr_iff[of "\<bar>x\<bar>" 2 e] x assms(1,2) by (simp only: two_powr_int)
  then show ?thesis using assms(3) by (simp add: binade_def)
qed

lemma ulp_pos: "0 < ulp x"
  by (simp add: ulp_def)



lemma fl64_0: "fl64 0 = 0"
  by (simp add: fl64_def)







text \<open>Evaluating the rounding at a number whose binade is known.\<close>

lemma fl64_eval:
  assumes "2 powi e \<le> \<bar>x\<bar>" and "\<bar>x\<bar> < 2 powi (e + 1)" and "- 1022 \<le> e"
  shows "fl64 x = of_int (round_half_even (x / 2 powi (e - 52))) * 2 powi (e - 52)"
proof -
  have "0 < (2::real) powi e" by simp
  then have "0 < \<bar>x\<bar>" using assms(1) by linarith
  then have "x \<noteq> 0" by simp
  then show ?thesis by (simp add: fl64_def ulp_def binade_eq[OF assms])
qed

lemma fl64_1: "fl64 1 = 1"
  using fl64_eval[of 0 1] by (simp add: rhe_of_int round_half_even_def)












text \<open>A multiple of a power of two with a significand of at most 53 bits is a double.\<close>

lemma fl64_dyadic:
  assumes m: "\<bar>m\<bar> < 2 ^ 53" and k: "- 1074 \<le> k"
  shows "fl64 (of_int m * 2 powi k) = of_int m * 2 powi k"
proof (cases "m = 0")
  case True
  then show ?thesis by (simp add: fl64_0)
next
  case False
  let ?x = "real_of_int m * 2 powi k"
  have x0: "?x \<noteq> 0" using False by simp
  have p: "(0::real) < 2 powi j" for j by simp
  have "\<bar>?x\<bar> = real_of_int \<bar>m\<bar> * 2 powi k" by (simp add: abs_mult)
  also have "\<dots> < 2 ^ 53 * 2 powi k"
  proof (rule mult_strict_right_mono)
    have "real_of_int \<bar>m\<bar> < real_of_int (2 ^ 53)" using m by (simp only: of_int_less_iff)
    then show "real_of_int \<bar>m\<bar> < 2 ^ 53" by simp
    show "(0::real) < 2 powi k" by simp
  qed
  also have "\<dots> = 2 powi (53 + k)"
  proof -
    have "(2::real) powi (53 + k) = 2 powi 53 * 2 powi k" by (rule power_int_add) simp
    then show ?thesis by simp
  qed
  finally have ub: "\<bar>?x\<bar> < 2 powi (53 + k)" .
  have bk: "binade ?x - 52 \<le> k"
  proof (cases "- 1022 < binade ?x")
    case True
    have "2 powi (binade ?x) \<le> \<bar>?x\<bar>" by (rule binade_lower[OF x0 True])
    then have "(2::real) powi (binade ?x) < 2 powi (53 + k)" using ub by linarith
    have "binade ?x < 53 + k"
    proof (rule ccontr)
      assume "\<not> binade ?x < 53 + k"
      then have "(2::real) powi (53 + k) \<le> 2 powi (binade ?x)"
        by (intro power_int_increasing) simp_all
      then show False using \<open>(2::real) powi (binade ?x) < 2 powi (53 + k)\<close> by linarith
    qed
    then show ?thesis by simp
  next
    case False
    then have "binade ?x = - 1022" unfolding binade_def by linarith
    then show ?thesis using k by simp
  qed
  define j where "j = nat (k - (binade ?x - 52))"
  have kj: "k = (binade ?x - 52) + int j" using bk by (simp add: j_def)
  have "(2::real) powi k = 2 powi (binade ?x - 52) * 2 powi (int j)"
    by (subst kj, rule power_int_add) simp
  then have pk0: "(2::real) powi k = ulp ?x * 2 ^ j" by (simp add: ulp_def)
  define U where "U = ulp ?x"
  have pk: "(2::real) powi k = U * 2 ^ j" unfolding U_def by (rule pk0)
  have u: "0 < U" unfolding U_def by (rule ulp_pos)
  have xU: "?x = of_int (m * 2 ^ j) * U" unfolding pk by simp
  have q: "?x / U = of_int (m * 2 ^ j)" unfolding xU using u by simp
  have "fl64 ?x = of_int (round_half_even (?x / U)) * U"
    unfolding U_def using x0 by (simp only: fl64_def if_False)
  also have "\<dots> = of_int (m * 2 ^ j) * U" unfolding q rhe_of_int ..
  also have "\<dots> = ?x" by (rule xU[symmetric])
  finally show ?thesis .
qed

lemma fl64_of_int: "\<bar>m\<bar> < 2 ^ 53 \<Longrightarrow> fl64 (of_int m) = of_int m"
  using fl64_dyadic[of m 0] by simp

subsection \<open>Light rays\<close>





lemma fl64_2: "fl64 2 = 2"
  using fl64_of_int[of 2] by simp










subsection \<open>Scroll position to target frame\<close>

lemma easeInOutCubic_mono:
  assumes "0 \<le> p1" "p1 \<le> p2" "p2 \<le> 1"
  shows "easeInOutCubic p1 \<le> easeInOutCubic p2"
proof -
  have cube: "a ^ 3 \<le> b ^ 3" if "0 \<le> a" "a \<le> b" for a b :: real
    by (rule power_mono[OF that(2) that(1)])
  have eq: "4 * t * t * t = 4 * t ^ 3" for t :: real by (simp add: power3_eq_cube)
  consider "p2 < 1 / 2" | "p1 < 1 / 2" "1 / 2 \<le> p2" | "1 / 2 \<le> p1" by linarith
  then show ?thesis
  proof cases
    case 1
    then show ?thesis using assms cube[of p1 p2] by (simp add: easeInOutCubic_def eq)
  next
    case 2
    have a: "p1 ^ 3 \<le> (1 / 2) ^ 3" using cube[of p1 "1 / 2"] assms 2 by simp
    have b: "(- 2 * p2 + 2) ^ 3 \<le> 1 ^ 3" using cube[of "- 2 * p2 + 2" 1] assms 2 by simp
    show ?thesis using 2 a b by (simp add: easeInOutCubic_def eq power3_eq_cube)
  next
    case 3
    have "(- 2 * p2 + 2) ^ 3 \<le> (- 2 * p1 + 2) ^ 3"
      using cube[of "- 2 * p2 + 2" "- 2 * p1 + 2"] assms 3 by simp
    then show ?thesis using 3 assms by (simp add: easeInOutCubic_def)
  qed
qed

lemma easeInOutCubic_0: "easeInOutCubic 0 = 0"
  by (simp add: easeInOutCubic_def)

lemma easeInOutCubic_1: "easeInOutCubic 1 = 1"
  by (simp add: easeInOutCubic_def)

lemma easeInOutCubic_range:
  assumes "0 \<le> p" "p \<le> 1"
  shows "0 \<le> easeInOutCubic p" "easeInOutCubic p \<le> 1"
  using easeInOutCubic_mono[of 0 p] easeInOutCubic_mono[of p 1] assms
  by (simp_all add: easeInOutCubic_0 easeInOutCubic_1)

lemma updateScrollPosition_targetFrame:
  "targetFrame (updateScrollPosition env vp s)
     = targetFrameOf (totalFrames (cfg s)) (scrollProgressOf vp)"
  using lazy_loop_related
  unfolding updateScrollPosition_def lazyLoadNearbyFrames_def Let_def load_related_def
  by simp

lemma scrollProgressOf_range: "0 \<le> scrollProgressOf vp \<and> scrollProgressOf vp \<le> 1"
  by (simp add: scrollProgressOf_def Let_def)

text \<open>
  Claim C5. \<open>updateScrollPosition\<close> sets \<open>targetFrame\<close> to the cubic ease of the scroll
  progress scaled by \<open>totalFrames - 1\<close>, the progress lies in \<open>[0, 1]\<close>, and on \<open>[0, 1]\<close>
  this target is monotonically non-decreasing in the progress and lies in
  \<open>[0, totalFrames - 1]\<close>.
\<close>

theorem targetFrame_monotone_in_range:
  assumes "0 < totalFrames (cfg s)" and "0 \<le> p1" and "p1 \<le> p2" and "p2 \<le> 1"
  shows "targetFrameOf (totalFrames (cfg s)) p1 \<le> targetFrameOf (totalFrames (cfg s)) p2
    \<and> 0 \<le> targetFrameOf (totalFrames (cfg s)) p1
    \<and> targetFrameOf (totalFrames (cfg s)) p2 \<le> real (totalFrames (cfg s)) - 1
    \<and> targetFrame (updateScrollPosition env vp s)
        = targetFrameOf (totalFrames (cfg s)) (scrollProgressOf vp)
    \<and> 0 \<le> scrollProgressOf vp \<and> scrollProgressOf vp \<le> 1"
proof -
  let ?n = "totalFrames (cfg s)"
  have n: "0 \<le> real ?n - 1" using assms(1) by simp
  have mono: "easeInOutCubic p1 \<le> easeInOutCubic p2"
    using easeInOutCubic_mono assms by simp
  have lo: "0 \<le> easeInOutCubic p1"
    using easeInOutCubic_range(1)[of p1] assms by simp
  have hi: "easeInOutCubic p2 \<le> 1"
    using easeInOutCubic_range(2)[of p2] assms by simp
  have 1: "targetFrameOf ?n p1 \<le> targetFrameOf ?n p2"
    unfolding targetFrameOf_def using mono n by (rule mult_right_mono)
  have 2: "0 \<le> targetFrameOf ?n p1"
    unfolding targetFrameOf_def using lo n by (rule mult_nonneg_nonneg)
  have 3: "targetFrameOf ?n p2 \<le> real ?n - 1"
    unfolding targetFrameOf_def using mult_right_mono[OF hi n] by simp
  show ?thesis
    using 1 2 3 updateScrollPosition_targetFrame scrollProgressOf_range by simp
qed

theorem targetFrame_monotone_in_range_witness:
  "targetFrameOf 120 (1 / 4) \<le> targetFrameOf 120 (3 / 4)
    \<and> 0 \<le> targetFrameOf 120 (1 / 4)
    \<and> targetFrameOf 120 (3 / 4) \<le> 119
    \<and> targetFrame (updateScrollPosition all_frames_env desktop (constructor default_options))
        = targetFrameOf 120 (scrollProgressOf desktop)"
  using targetFrame_monotone_in_range [of "constructor default_options" "1 / 4" "3 / 4"
      all_frames_env desktop]
  by (simp add: constructor_def default_options_def)

text \<open>
  Claim C10. \<open>updateScrollPosition\<close> is defined when the document has nothing to scroll:
  if the scroll height minus the window height is zero or negative, the scroll progress
  is 0 and the target frame is 0; no quotient by that extent is formed.
\<close>

theorem no_scroll_extent:
  assumes "docScrollHeight vp - innerHeight vp \<le> 0"
  shows "scrollProgressOf vp = 0 \<and> targetFrame (updateScrollPosition env vp s) = 0"
  using assms
  by (simp add: updateScrollPosition_targetFrame scrollProgressOf_def targetFrameOf_def
      easeInOutCubic_0 Let_def)

theorem no_scroll_extent_witness:
  "docScrollHeight short_page - innerHeight short_page \<le> 0
   \<and> scrollProgressOf short_page = 0
   \<and> targetFrame (updateScrollPosition all_frames_env short_page (constructor default_options)) = 0"
  using no_scroll_extent [of short_page all_frames_env "constructor default_options"]
  by (simp add: short_page_def window_of_width_def)


subsection \<open>Wrapping\<close>





subsection \<open>Particles\<close>

text \<open>The position a tick leaves, in terms of the position after the move.\<close>

lemma particle_tick_x:
  "p_x (particle_tick W H vm r p) =
     (if fl64 (H + 10) < fl64 (p_y p + particle_stepY vm p) then fl64 (r * W)
      else if fl64 (p_x p + particle_stepX vm p) < - 10 then fl64 (W + 10)
      else if fl64 (W + 10) < fl64 (p_x p + particle_stepX vm p) then - 10
      else fl64 (p_x p + particle_stepX vm p))"
  by (simp add: particle_tick_def Let_def particle_stepX_def particle_stepY_def)

lemma particle_tick_y:
  "p_y (particle_tick W H vm r p) =
     (if fl64 (H + 10) < fl64 (p_y p + particle_stepY vm p) then - 10
      else fl64 (p_y p + particle_stepY vm p))"
  by (simp add: particle_tick_def Let_def particle_stepX_def particle_stepY_def)

lemma particle_tick_keeps:
  "p_speedX (particle_tick W H vm r p) = p_speedX p"
  "p_speedY (particle_tick W H vm r p) = p_speedY p"
  "p_depth (particle_tick W H vm r p) = p_depth p"
  by (simp_all add: particle_tick_def Let_def)













subsection \<open>Sparkles\<close>
















subsection \<open>Pools\<close>






















text \<open>
  Without a lower bound on the steps towards the viewport an entity can stay out of
  view for ever: a particle that the bottom wrap puts at the left edge
  (\<open>Math.random()\<close> returning 0) and that drifts to the left is left of the viewport
  whenever it is below the top edge.
\<close>

lemma drifting_particle_tick:
  assumes "p_speedX q = - 1 / 1024" "p_speedY q = 1 / 4" "p_depth q = 0"
    and "k \<le> 3152" "p_x q = - real k / 1024" "p_y q = - 10 + real k / 4"
  shows "\<exists>k'. k' \<le> 3152 \<and> p_x (particle_tick 1024 768 1 0 q) = - real k' / 1024
            \<and> p_y (particle_tick 1024 768 1 0 q) = - 10 + real k' / 4"
proof -
  have v: "fl64 (- (1 / 1024)) = - (1 / 1024)" "fl64 (1 / 4) = 1 / 4" "fl64 778 = 778"
    "fl64 1034 = 1034"
    using fl64_dyadic[of "- 1" "- 10"] fl64_dyadic[of 1 "- 2"] fl64_of_int[of 778]
      fl64_of_int[of 1034]
    by (simp_all add: power_int_minus)
  have sx: "particle_stepX 1 q = - (1 / 1024)"
    unfolding particle_stepX_def assms(1,3) by (simp add: v fl64_1)
  have sy: "particle_stepY 1 q = 1 / 4"
    unfolding particle_stepY_def assms(2,3) by (simp add: v fl64_1)
  have "fl64 (real_of_int (- (int k + 1)) * 2 powi (- 10)) = real_of_int (- (int k + 1)) * 2 powi (- 10)"
    by (rule fl64_dyadic) (use assms(4) in simp_all)
  then have x1: "fl64 (p_x q + particle_stepX 1 q) = - real (Suc k) / 1024"
    unfolding sx assms(5) by (simp add: power_int_minus field_simps)
  have "fl64 (real_of_int (int k + 1 - 40) * 2 powi (- 2)) = real_of_int (int k + 1 - 40) * 2 powi (- 2)"
    by (rule fl64_dyadic) (use assms(4) in simp_all)
  then have y1: "fl64 (p_y q + particle_stepY 1 q) = - 10 + real (Suc k) / 4"
    unfolding sy assms(6) by (simp add: power_int_minus field_simps)
  show ?thesis
  proof (cases "k = 3152")
    case True
    have "p_x (particle_tick 1024 768 1 0 q) = - real (0::nat) / 1024
        \<and> p_y (particle_tick 1024 768 1 0 q) = - 10 + real (0::nat) / 4"
      unfolding particle_tick_x particle_tick_y x1 y1 using True by (simp add: v fl64_0)
    then show ?thesis by blast
  next
    case False
    then have k: "Suc k \<le> 3152" using assms(4) by simp
    then have "real k + 1 \<le> 3152" by linarith
    then have "p_x (particle_tick 1024 768 1 0 q) = - real (Suc k) / 1024
        \<and> p_y (particle_tick 1024 768 1 0 q) = - 10 + real (Suc k) / 4"
      unfolding particle_tick_x particle_tick_y x1 y1 by (simp add: v)
    then show ?thesis using k by blast
  qed
qed

lemma drifting_particle_orbit:
  "\<exists>k. k \<le> 3152
      \<and> p_x (particle_ticks 1024 768 (\<lambda>t. 1) (\<lambda>t. 0) n drifting_particle) = - real k / 1024
      \<and> p_y (particle_ticks 1024 768 (\<lambda>t. 1) (\<lambda>t. 0) n drifting_particle) = - 10 + real k / 4"
proof (induction n)
  case 0
  have "p_x drifting_particle = - real (0::nat) / 1024 \<and> p_y drifting_particle = - 10 + real (0::nat) / 4"
    by (simp add: drifting_particle_def)
  then show ?case by (metis particle_ticks.simps(1) zero_le)
next
  case (Suc n)
  let ?q = "particle_ticks 1024 768 (\<lambda>t. 1) (\<lambda>t. 0) n drifting_particle"
  obtain k where k: "k \<le> 3152" "p_x ?q = - real k / 1024" "p_y ?q = - 10 + real k / 4"
    using Suc by blast
  have f: "p_speedX ?q = - 1 / 1024" "p_speedY ?q = 1 / 4" "p_depth ?q = 0"
    by (induction n) (simp_all add: particle_tick_keeps drifting_particle_def)
  show ?case
    using drifting_particle_tick[OF f k] by simp
qed

lemma drifting_particle_never_in_view:
  "\<not> (0 \<le> p_x (particle_ticks 1024 768 (\<lambda>t. 1) (\<lambda>t. 0) n drifting_particle)
      \<and> p_x (particle_ticks 1024 768 (\<lambda>t. 1) (\<lambda>t. 0) n drifting_particle) \<le> 1024
      \<and> 0 \<le> p_y (particle_ticks 1024 768 (\<lambda>t. 1) (\<lambda>t. 0) n drifting_particle)
      \<and> p_y (particle_ticks 1024 768 (\<lambda>t. 1) (\<lambda>t. 0) n drifting_particle) \<le> 768)"
proof -
  obtain k where k: "k \<le> 3152"
      "p_x (particle_ticks 1024 768 (\<lambda>t. 1) (\<lambda>t. 0) n drifting_particle) = - real k / 1024"
      "p_y (particle_ticks 1024 768 (\<lambda>t. 1) (\<lambda>t. 0) n drifting_particle) = - 10 + real k / 4"
    using drifting_particle_orbit[of n] by blast
  show ?thesis
    unfolding k(2,3) by (cases "k = 0") simp_all
qed

subsection \<open>Particles and sparkles stay near the viewport\<close>





subsection \<open>Drawing\<close>


lemma drawFrameWithBlending_fields:
  "cfg (drawFrameWithBlending vp x s) = cfg s"
  "currentFrame (drawFrameWithBlending vp x s) = currentFrame s"
  "targetFrame (drawFrameWithBlending vp x s) = targetFrame s"
  "velocity (drawFrameWithBlending vp x s) = velocity s"
  "scrollVelocity (drawFrameWithBlending vp x s) = scrollVelocity s"
  "images (drawFrameWithBlending vp x s) = images s"
  "ctx (drawFrameWithBlending vp x s) = ctx s"
  by (simp_all add: drawFrameWithBlending_def split: option.split)







subsection \<open>The draw loop\<close>

lemma animate_fields:
  "cfg (animate vp ts s) = cfg s"
  "targetFrame (animate vp ts s) = targetFrame s"
  "scrollVelocity (animate vp ts s) = scrollVelocity s"
  "images (animate vp ts s) = images s"
  "ctx (animate vp ts s) = ctx s"
  by (simp_all add: animate_def Let_def drawFrameWithBlending_fields)

lemma animate_velocity:
  "velocity (animate vp ts s)
     = (velocity s + (targetFrame s - currentFrame s) * (if scrollVelocity s > 50 then 12 / 100 else 6 / 100)) * (75 / 100)"
  by (simp add: animate_def Let_def drawFrameWithBlending_fields)

lemma animate_currentFrame:
  "currentFrame (animate vp ts s)
     = (if \<bar>velocity (animate vp ts s)\<bar> < 5 / 100
        then of_int (Math_round (max 0 (min (currentFrame s + velocity (animate vp ts s)) (real (totalFrames (cfg s)) - 1))))
        else max 0 (min (currentFrame s + velocity (animate vp ts s)) (real (totalFrames (cfg s)) - 1)))"
  by (simp add: animate_def Let_def drawFrameWithBlending_fields)

lemma Math_round_range:
  assumes "0 \<le> c" "c \<le> real n - 1"
  shows "0 \<le> (of_int (Math_round c) :: real)" "of_int (Math_round c) \<le> real n - 1"
proof -
  have "0 \<le> Math_round c" using assms(1) by (simp add: Math_round_def)
  then show "0 \<le> (of_int (Math_round c) :: real)" by simp
  have "c + 1 / 2 < real n" using assms(2) by simp
  then have "\<lfloor>c + 1 / 2\<rfloor> < int n"
    by (simp add: floor_less_iff)
  then have "Math_round c \<le> int n - 1" by (simp add: Math_round_def)
  then have "(of_int (Math_round c) :: real) \<le> of_int (int n - 1)" by (simp only: of_int_le_iff)
  then show "of_int (Math_round c) \<le> real n - 1" by simp
qed

lemma clamp_range:
  assumes "0 < n"
  shows "0 \<le> max 0 (min x (real n - 1))" "max 0 (min x (real n - 1)) \<le> real n - 1"
  using assms by simp_all

lemma animate_in_range:
  assumes "0 < totalFrames (cfg s)"
  shows "frame_in_range (animate vp ts s)"
  unfolding frame_in_range_def animate_currentFrame animate_fields
  using Math_round_range[OF clamp_range[OF assms]] clamp_range[OF assms]
  by presburger

lemma jumpToFrame_in_range:
  assumes "0 < totalFrames (cfg s)"
  shows "frame_in_range (jumpToFrame vp x s)"
  using assms
  by (simp add: frame_in_range_def jumpToFrame_def drawFrame_def Let_def drawFrameWithBlending_fields)

lemma jumpToProgress_in_range:
  assumes "0 < totalFrames (cfg s)"
  shows "frame_in_range (jumpToProgress vp x s)"
  using assms by (simp add: jumpToProgress_def Let_def jumpToFrame_in_range)

subsection \<open>Load bookkeeping\<close>

lemma loadImage_Inl:
  "loadImage env i s = Inl e \<Longrightarrow>
     e = FailedToLoadFrame i \<and> i \<notin> loadedImages s \<and> fetch env (imageFormat (cfg s)) i = None"
  by (auto simp: loadImage_def split: if_splits option.splits)

lemma updateProgress_fields:
  "cfg (updateProgress s) = cfg s"
  "images (updateProgress s) = images s"
  "loadedImages (updateProgress s) = loadedImages s"
  "loadedCount (updateProgress s) = loadedCount s"
  by (simp_all add: updateProgress_def Let_def)

lemma loadImage_Inr_loaded:
  "loadImage env i s = Inr s' \<Longrightarrow> loadedImages s' = insert i (loadedImages s)"
  by (auto simp: loadImage_def updateProgress_fields split: if_splits option.splits)

lemma loadImage_succeeds:
  "i \<in> loadedImages s \<or> fetch env (imageFormat (cfg s)) i \<noteq> None \<Longrightarrow> \<exists>s'. loadImage env i s = Inr s'"
  by (auto simp: loadImage_def split: if_splits option.splits)

lemma loadImage_fails:
  "i \<notin> loadedImages s \<Longrightarrow> fetch env (imageFormat (cfg s)) i = None
     \<Longrightarrow> loadImage env i s = Inl (FailedToLoadFrame i)"
  by (simp add: loadImage_def)

lemma loadImage_consistent:
  assumes "loads_consistent env s" "loadImage env i s = Inr s'"
  shows "loads_consistent env s'"
proof (cases "i \<in> loadedImages s")
  case True
  then show ?thesis using assms by (simp add: loadImage_def)
next
  case False
  then obtain img where f: "fetch env (imageFormat (cfg s)) i = Some img"
    using assms(2) by (auto simp: loadImage_def split: option.splits)
  have s': "loadedImages s' = insert i (loadedImages s)" "loadedCount s' = loadedCount s + 1"
    "cfg s' = cfg s"
    using assms(2) False f by (auto simp: loadImage_def updateProgress_fields)
  show ?thesis
    using assms(1) False f unfolding loads_consistent_def s' by simp
qed

lemma await_each_related: "load_related s (snd (await_each env xs s))"
proof (induction xs arbitrary: s)
  case Nil
  show ?case by (simp add: load_related_refl)
next
  case (Cons i rest)
  show ?case
  proof (cases "loadImage env i s")
    case (Inl e)
    then show ?thesis by (simp add: load_related_refl)
  next
    case (Inr s')
    then show ?thesis
      using Cons.IH[of s'] loadImage_related[OF Inr] load_related_trans by simp
  qed
qed

lemma promise_all_related: "load_related s (snd (promise_all env xs s))"
proof (induction xs arbitrary: s)
  case Nil
  show ?case by (simp add: load_related_refl)
next
  case (Cons i rest)
  show ?case
  proof (cases "loadImage env i s")
    case (Inl e)
    then show ?thesis using Cons.IH[of s] by simp
  next
    case (Inr s')
    then show ?thesis
      using Cons.IH[of s'] loadImage_related[OF Inr] load_related_trans by simp
  qed
qed

lemma await_each_consistent:
  "loads_consistent env s \<Longrightarrow> loads_consistent env (snd (await_each env xs s))"
proof (induction xs arbitrary: s)
  case Nil
  then show ?case by simp
next
  case (Cons i rest)
  show ?case
  proof (cases "loadImage env i s")
    case (Inl e)
    then show ?thesis using Cons.prems by simp
  next
    case (Inr s')
    then show ?thesis
      using Cons.IH[of s'] loadImage_consistent[OF Cons.prems Inr] by simp
  qed
qed

lemma promise_all_consistent:
  "loads_consistent env s \<Longrightarrow> loads_consistent env (snd (promise_all env xs s))"
proof (induction xs arbitrary: s)
  case Nil
  then show ?case by simp
next
  case (Cons i rest)
  show ?case
  proof (cases "loadImage env i s")
    case (Inl e)
    then show ?thesis using Cons.IH[OF Cons.prems] by simp
  next
    case (Inr s')
    then show ?thesis
      using Cons.IH[of s'] loadImage_consistent[OF Cons.prems Inr] by simp
  qed
qed

lemma lazy_loop_consistent:
  "loads_consistent env s \<Longrightarrow> loads_consistent env (lazy_loop env xs s)"
proof (induction xs arbitrary: s)
  case Nil
  then show ?case by simp
next
  case (Cons i rest)
  show ?case
  proof (cases "loadImage env i s")
    case (Inl e)
    then show ?thesis using Cons.IH[OF Cons.prems] by simp
  next
    case (Inr s')
    then show ?thesis
      using Cons.IH[of s'] Cons.IH[OF Cons.prems] loadImage_consistent[OF Cons.prems Inr] by simp
  qed
qed

lemma lazy_loop_mono: "loadedImages s \<subseteq> loadedImages (lazy_loop env xs s)"
proof (induction xs arbitrary: s)
  case Nil
  show ?case by simp
next
  case (Cons i rest)
  show ?case
  proof (cases "loadImage env i s")
    case (Inl e)
    then show ?thesis using Cons.IH[of s] by simp
  next
    case (Inr s')
    then show ?thesis
      using Cons.IH[of s'] Cons.IH[of s] loadImage_Inr_loaded[OF Inr] by auto
  qed
qed

text \<open>The sequential loads succeed exactly when every listed file is delivered.\<close>

lemma await_each_None_iff:
  assumes "loads_consistent env s"
  shows "fst (await_each env xs s) = None
     \<longleftrightarrow> (\<forall>i \<in> set xs. fetch env (imageFormat (cfg s)) i \<noteq> None)"
  using assms
proof (induction xs arbitrary: s)
  case Nil
  show ?case by simp
next
  case (Cons i rest)
  show ?case
  proof (cases "loadImage env i s")
    case (Inl e)
    then show ?thesis using loadImage_Inl[OF Inl] by simp
  next
    case (Inr s')
    have ok: "fetch env (imageFormat (cfg s)) i \<noteq> None"
      using Inr Cons.prems by (auto simp: loadImage_def loads_consistent_def split: if_splits option.splits)
    have c: "cfg s' = cfg s" using loadImage_related[OF Inr] by (simp add: load_related_def)
    show ?thesis
      using Inr Cons.IH[OF loadImage_consistent[OF Cons.prems Inr]] ok c by simp
  qed
qed

lemma promise_all_None_iff:
  assumes "loads_consistent env s"
  shows "fst (promise_all env xs s) = None
     \<longleftrightarrow> (\<forall>i \<in> set xs. fetch env (imageFormat (cfg s)) i \<noteq> None)"
  using assms
proof (induction xs arbitrary: s)
  case Nil
  show ?case by simp
next
  case (Cons i rest)
  show ?case
  proof (cases "loadImage env i s")
    case (Inl e)
    then show ?thesis using loadImage_Inl[OF Inl] by simp
  next
    case (Inr s')
    have ok: "fetch env (imageFormat (cfg s)) i \<noteq> None"
      using Inr Cons.prems by (auto simp: loadImage_def loads_consistent_def split: if_splits option.splits)
    have c: "cfg s' = cfg s" using loadImage_related[OF Inr] by (simp add: load_related_def)
    show ?thesis
      using Inr Cons.IH[OF loadImage_consistent[OF Cons.prems Inr]] ok c by simp
  qed
qed

lemma await_each_loaded:
  "fst (await_each env xs s) = None
     \<Longrightarrow> loadedImages (snd (await_each env xs s)) = loadedImages s \<union> set xs"
proof (induction xs arbitrary: s)
  case Nil
  show ?case by simp
next
  case (Cons i rest)
  show ?case
  proof (cases "loadImage env i s")
    case (Inl e)
    then show ?thesis using Cons.prems by simp
  next
    case (Inr s')
    then show ?thesis
      using Cons.IH[of s'] Cons.prems loadImage_Inr_loaded[OF Inr] by simp
  qed
qed

text \<open>Of the loads requested together, every one whose file is delivered completes.\<close>

lemma promise_all_loaded:
  assumes "loads_consistent env s"
  shows "loadedImages (snd (promise_all env xs s))
     = loadedImages s \<union> {i \<in> set xs. fetch env (imageFormat (cfg s)) i \<noteq> None}"
  using assms
proof (induction xs arbitrary: s)
  case Nil
  show ?case by simp
next
  case (Cons i rest)
  show ?case
  proof (cases "loadImage env i s")
    case (Inl e)
    have "{j \<in> set (i # rest). fetch env (imageFormat (cfg s)) j \<noteq> None}
            = {j \<in> set rest. fetch env (imageFormat (cfg s)) j \<noteq> None}"
      using loadImage_Inl[OF Inl] by auto
    then show ?thesis using Inl Cons.IH[OF Cons.prems] by simp
  next
    case (Inr s')
    have ok: "fetch env (imageFormat (cfg s)) i \<noteq> None"
      using Inr Cons.prems by (auto simp: loadImage_def loads_consistent_def split: if_splits option.splits)
    have c: "cfg s' = cfg s" using loadImage_related[OF Inr] by (simp add: load_related_def)
    have "insert i (loadedImages s) \<union> {j \<in> set rest. fetch env (imageFormat (cfg s)) j \<noteq> None}
            = loadedImages s \<union> {j \<in> set (i # rest). fetch env (imageFormat (cfg s)) j \<noteq> None}"
      using ok by auto
    then show ?thesis
      using Inr Cons.IH[OF loadImage_consistent[OF Cons.prems Inr]]
      unfolding c loadImage_Inr_loaded[OF Inr] by simp
  qed
qed

text \<open>A rejected first load leaves the state as it was: nothing later is requested.\<close>

lemma await_each_first_fails:
  "i \<notin> loadedImages s \<Longrightarrow> fetch env (imageFormat (cfg s)) i = None
     \<Longrightarrow> await_each env (i # rest) s = (Some (FailedToLoadFrame i), s)"
  by (simp add: loadImage_fails)

lemma drawFrameWithBlending_layers:
  "\<exists>L. drawFrameWithBlending vp x s = s\<lparr>layers := L\<rparr>"
proof (cases "blendedLayers vp x s")
  case None
  then have "drawFrameWithBlending vp x s = s\<lparr>layers := layers s\<rparr>"
    by (simp add: drawFrameWithBlending_def)
  then show ?thesis by blast
next
  case (Some L)
  then have "drawFrameWithBlending vp x s = s\<lparr>layers := L\<rparr>"
    by (simp add: drawFrameWithBlending_def)
  then show ?thesis by blast
qed

lemma resizeCanvas_shape:
  "\<exists>w h L. resizeCanvas vp s = s\<lparr>canvasWidth := w, canvasHeight := h, layers := L\<rparr>"
proof (cases "canvas s")
  case False
  then have "resizeCanvas vp s = s\<lparr>canvasWidth := canvasWidth s, canvasHeight := canvasHeight s, layers := layers s\<rparr>"
    by (simp add: resizeCanvas_def)
  then show ?thesis by blast
next
  case True
  define dpr where "dpr = (if devicePixelRatio vp = 0 then 1 else devicePixelRatio vp)"
  define s1 where "s1 = s\<lparr>canvasWidth := clientWidth vp * dpr,
                   canvasHeight := clientHeight vp * dpr, layers := []\<rparr>"
  have r: "resizeCanvas vp s = (case images s1 \<lfloor>currentFrame s1\<rfloor> of None \<Rightarrow> s1
            | Some _ \<Rightarrow> drawFrameWithBlending vp (currentFrame s1) s1)"
    unfolding resizeCanvas_def Let_def s1_def dpr_def
    by (simp only: True not_True_eq_False if_False)
  obtain L where L: "drawFrameWithBlending vp (currentFrame s1) s1 = s1\<lparr>layers := L\<rparr>"
    using drawFrameWithBlending_layers by blast
  have "resizeCanvas vp s = s1\<lparr>layers := []\<rparr> \<or> resizeCanvas vp s = s1\<lparr>layers := L\<rparr>"
    unfolding r L by (cases "images s1 \<lfloor>currentFrame s1\<rfloor>") (simp_all add: s1_def)
  then show ?thesis unfolding s1_def by auto
qed

lemma drawFrame_related: "load_related s (drawFrame vp x s)"
proof -
  obtain L where "drawFrame vp x s = s\<lparr>layers := L\<rparr>"
    using drawFrameWithBlending_layers unfolding drawFrame_def by blast
  then show ?thesis by (simp add: load_related_def outcome_def)
qed

lemma drawFrame_loads:
  "loadedImages (drawFrame vp x s) = loadedImages s"
  "loadedCount (drawFrame vp x s) = loadedCount s"
  "cfg (drawFrame vp x s) = cfg s"
proof -
  obtain L where "drawFrame vp x s = s\<lparr>layers := L\<rparr>"
    using drawFrameWithBlending_layers unfolding drawFrame_def by blast
  then show "loadedImages (drawFrame vp x s) = loadedImages s"
    "loadedCount (drawFrame vp x s) = loadedCount s" "cfg (drawFrame vp x s) = cfg s"
    by simp_all
qed

lemma drawFrame_consistent: "loads_consistent env (drawFrame vp x s) = loads_consistent env s"
  by (simp add: loads_consistent_def drawFrame_loads)

lemma set_priorityFrames:
  assumes "0 < totalFrames (cfg s)"
  shows "set (priorityFrames s) \<subseteq> {0 ..< int (totalFrames (cfg s))}"
proof -
  have "\<lfloor>real (totalFrames (cfg s)) / 2\<rfloor> = int (totalFrames (cfg s)) div 2"
    using floor_divide_of_nat_eq[of "totalFrames (cfg s)" 2, where ?'a = real]
    by (simp add: zdiv_int)
  then show ?thesis using assms by (auto simp: priorityFrames_def)
qed

lemma set_frames_split:
  assumes "0 < totalFrames (cfg s)"
  shows "set (priorityFrames s) \<union> set (remainingFrames s) = {0 ..< int (totalFrames (cfg s))}"
proof -
  have "set (map int [0 ..< totalFrames (cfg s)]) = {0 ..< int (totalFrames (cfg s))}"
    by (auto simp: image_iff) (metis atLeastLessThan_iff nat_less_iff nat_0_le zero_le)
  then show ?thesis
    using set_priorityFrames[OF assms] unfolding remainingFrames_def by auto
qed

subsection \<open>Preloading\<close>

lemma remainingFrames_cong: "cfg t = cfg s \<Longrightarrow> remainingFrames t = remainingFrames s"
  by (simp add: remainingFrames_def priorityFrames_def)

text \<open>The state between the priority loads and the concurrent loads.\<close>

lemma preloadImages_unfold:
  "preloadImages env vp s =
     (if fst (await_each env (priorityFrames s) s) \<noteq> None
      then await_each env (priorityFrames s) s
      else promise_all env (remainingFrames s)
             (case images (snd (await_each env (priorityFrames s) s)) 0 of
                None \<Rightarrow> snd (await_each env (priorityFrames s) s)
              | Some _ \<Rightarrow> drawFrame vp 0 (snd (await_each env (priorityFrames s) s))))"
proof -
  obtain r1 s1 where a: "await_each env (priorityFrames s) s = (r1, s1)"
    by (cases "await_each env (priorityFrames s) s")
  have c: "cfg s1 = cfg s"
    using await_each_related[of s env "priorityFrames s"] a by (simp add: load_related_def)
  have "remainingFrames (case images s1 0 of None \<Rightarrow> s1 | Some _ \<Rightarrow> drawFrame vp 0 s1)
          = remainingFrames s"
    by (rule remainingFrames_cong) (simp add: c drawFrame_loads split: option.split)
  then show ?thesis
    unfolding preloadImages_def a Let_def snd_conv fst_conv by (cases r1) simp_all
qed

lemma preloadImages_related: "load_related s (snd (preloadImages env vp s))"
proof -
  let ?a = "await_each env (priorityFrames s) s"
  let ?m = "case images (snd ?a) 0 of None \<Rightarrow> snd ?a | Some _ \<Rightarrow> drawFrame vp 0 (snd ?a)"
  have 1: "load_related s (snd ?a)" by (rule await_each_related)
  have 2: "load_related (snd ?a) ?m"
    by (simp add: load_related_refl drawFrame_related split: option.split)
  have 3: "load_related ?m (snd (promise_all env (remainingFrames s) ?m))"
    by (rule promise_all_related)
  show ?thesis
    unfolding preloadImages_unfold
    using 1 load_related_trans[OF 1 load_related_trans[OF 2 3]] by (simp split: if_split)
qed

lemma preloadImages_consistent:
  assumes "loads_consistent env s"
  shows "loads_consistent env (snd (preloadImages env vp s))"
proof -
  let ?a = "await_each env (priorityFrames s) s"
  let ?m = "case images (snd ?a) 0 of None \<Rightarrow> snd ?a | Some _ \<Rightarrow> drawFrame vp 0 (snd ?a)"
  have 1: "loads_consistent env (snd ?a)" by (rule await_each_consistent[OF assms])
  have 2: "loads_consistent env ?m"
    using 1 by (simp add: drawFrame_consistent split: option.split)
  have 3: "loads_consistent env (snd (promise_all env (remainingFrames s) ?m))"
    by (rule promise_all_consistent[OF 2])
  show ?thesis
    unfolding preloadImages_unfold using 1 3 by (simp split: if_split)
qed

lemma preloadImages_None_iff:
  assumes "loads_consistent env s" and "0 < totalFrames (cfg s)"
  shows "fst (preloadImages env vp s) = None
     \<longleftrightarrow> (\<forall>i. 0 \<le> i \<and> i < int (totalFrames (cfg s)) \<longrightarrow> fetch env (imageFormat (cfg s)) i \<noteq> None)"
proof -
  let ?a = "await_each env (priorityFrames s) s"
  let ?m = "case images (snd ?a) 0 of None \<Rightarrow> snd ?a | Some _ \<Rightarrow> drawFrame vp 0 (snd ?a)"
  let ?ok = "\<lambda>i. fetch env (imageFormat (cfg s)) i \<noteq> None"
  have ca: "cfg (snd ?a) = cfg s"
    using await_each_related[of s env "priorityFrames s"] by (simp add: load_related_def)
  have cm: "cfg ?m = cfg s"
    by (simp add: ca drawFrame_loads split: option.split)
  have 1: "loads_consistent env (snd ?a)" by (rule await_each_consistent[OF assms(1)])
  have 2: "loads_consistent env ?m"
    using 1 by (simp add: drawFrame_consistent split: option.split)
  have p: "fst ?a = None \<longleftrightarrow> (\<forall>i \<in> set (priorityFrames s). ?ok i)"
    by (rule await_each_None_iff[OF assms(1)])
  have q: "fst (promise_all env (remainingFrames s) ?m) = None
            \<longleftrightarrow> (\<forall>i \<in> set (remainingFrames s). ?ok i)"
    using promise_all_None_iff[OF 2, of "remainingFrames s"] unfolding cm .
  have "fst (preloadImages env vp s) = None
          \<longleftrightarrow> (\<forall>i \<in> set (priorityFrames s) \<union> set (remainingFrames s). ?ok i)"
    unfolding preloadImages_unfold using p q by (auto split: if_splits)
  then show ?thesis
    unfolding set_frames_split[OF assms(2)] by auto
qed

text \<open>
  When the three priority frames load, every frame whose file is delivered ends up
  loaded, whether or not another frame fails.
\<close>

lemma preloadImages_loaded:
  assumes "loads_consistent env s" and "0 < totalFrames (cfg s)"
    and "\<forall>i \<in> set (priorityFrames s). fetch env (imageFormat (cfg s)) i \<noteq> None"
  shows "loadedImages (snd (preloadImages env vp s))
     = loadedImages s \<union> {i. 0 \<le> i \<and> i < int (totalFrames (cfg s)) \<and> fetch env (imageFormat (cfg s)) i \<noteq> None}"
proof -
  let ?a = "await_each env (priorityFrames s) s"
  let ?m = "case images (snd ?a) 0 of None \<Rightarrow> snd ?a | Some _ \<Rightarrow> drawFrame vp 0 (snd ?a)"
  let ?ok = "\<lambda>i. fetch env (imageFormat (cfg s)) i \<noteq> None"
  have ca: "cfg (snd ?a) = cfg s"
    using await_each_related[of s env "priorityFrames s"] by (simp add: load_related_def)
  have cm: "cfg ?m = cfg s"
    by (simp add: ca drawFrame_loads split: option.split)
  have 1: "loads_consistent env (snd ?a)" by (rule await_each_consistent[OF assms(1)])
  have 2: "loads_consistent env ?m"
    using 1 by (simp add: drawFrame_consistent split: option.split)
  have p: "fst ?a = None"
    using await_each_None_iff[OF assms(1), of "priorityFrames s"] assms(3) by simp
  have la: "loadedImages (snd ?a) = loadedImages s \<union> set (priorityFrames s)"
    by (rule await_each_loaded[OF p])
  have lm: "loadedImages ?m = loadedImages s \<union> set (priorityFrames s)"
    by (simp add: la drawFrame_loads split: option.split)
  have "loadedImages (snd (preloadImages env vp s))
          = loadedImages ?m \<union> {i \<in> set (remainingFrames s). ?ok i}"
    unfolding preloadImages_unfold using p promise_all_loaded[OF 2, of "remainingFrames s"]
    unfolding cm by simp
  also have "\<dots> = loadedImages s \<union> {i \<in> set (priorityFrames s) \<union> set (remainingFrames s). ?ok i}"
    unfolding lm using assms(3) by auto
  finally show ?thesis
    unfolding set_frames_split[OF assms(2)] by auto
qed

text \<open>When the first frame fails, nothing else is requested.\<close>

lemma preloadImages_first_fails:
  assumes "0 \<notin> loadedImages s" and "fetch env (imageFormat (cfg s)) 0 = None"
  shows "preloadImages env vp s = (Some (FailedToLoadFrame 0), s)"
  unfolding preloadImages_def priorityFrames_def
  using assms by (simp add: loadImage_fails)

subsection \<open>Initialization\<close>

lemma init_unfold:
  "init env vp s =
     (if \<not> canvasPresent env
      then (selectFormat env (detectDevice vp s))
             \<lparr>calls := calls (selectFormat env (detectDevice vp s)) @ [OnError CanvasNotFound]\<rparr>
      else case fst (preloadImages env vp (beforePreload env vp s)) of
             Some e \<Rightarrow> (snd (preloadImages env vp (beforePreload env vp s)))
                 \<lparr>calls := calls (snd (preloadImages env vp (beforePreload env vp s))) @ [OnError e]\<rparr>
           | None \<Rightarrow> finishInit env vp (snd (preloadImages env vp (beforePreload env vp s))))"
proof (cases "canvasPresent env")
  case False
  then show ?thesis by (simp add: init_def setupCanvas_def Let_def)
next
  case True
  obtain r p where P: "preloadImages env vp (beforePreload env vp s) = (r, p)"
    by (cases "preloadImages env vp (beforePreload env vp s)")
  show ?thesis
    using True P unfolding init_def setupCanvas_def Let_def beforePreload_def[symmetric]
    by (cases r) (simp_all add: beforePreload_def[symmetric])
qed

lemma detectDevice_fields:
  "totalFrames (cfg (detectDevice vp s))
     = (if innerWidth vp \<le> mobileBreakpoint (cfg s) then mobileFrameCount (cfg s)
        else totalFrames (cfg s))"
  "imageFormat (cfg (detectDevice vp s)) = imageFormat (cfg s)"
  "loadedImages (detectDevice vp s) = loadedImages s"
  "loadedCount (detectDevice vp s) = loadedCount s"
  "calls (detectDevice vp s) = calls s"
  "currentFrame (detectDevice vp s) = currentFrame s"
  "velocity (detectDevice vp s) = velocity s"
  "scrollVelocity (detectDevice vp s) = scrollVelocity s"
  "lastScrollY (detectDevice vp s) = lastScrollY s"
  by (simp_all add: detectDevice_def Let_def)

lemma selectFormat_fields:
  "totalFrames (cfg (selectFormat env s)) = totalFrames (cfg s)"
  "loadedImages (selectFormat env s) = loadedImages s"
  "loadedCount (selectFormat env s) = loadedCount s"
  "calls (selectFormat env s) = calls s"
  "currentFrame (selectFormat env s) = currentFrame s"
  "velocity (selectFormat env s) = velocity s"
  "scrollVelocity (selectFormat env s) = scrollVelocity s"
  "lastScrollY (selectFormat env s) = lastScrollY s"
  by (simp_all add: selectFormat_def)

lemma resizeCanvas_fields:
  "cfg (resizeCanvas vp s) = cfg s"
  "loadedImages (resizeCanvas vp s) = loadedImages s"
  "loadedCount (resizeCanvas vp s) = loadedCount s"
  "calls (resizeCanvas vp s) = calls s"
  "currentFrame (resizeCanvas vp s) = currentFrame s"
  "targetFrame (resizeCanvas vp s) = targetFrame s"
  "velocity (resizeCanvas vp s) = velocity s"
  "scrollVelocity (resizeCanvas vp s) = scrollVelocity s"
  "lastScrollY (resizeCanvas vp s) = lastScrollY s"
  "images (resizeCanvas vp s) = images s"
  "ctx (resizeCanvas vp s) = ctx s"
proof -
  obtain w h L where "resizeCanvas vp s = s\<lparr>canvasWidth := w, canvasHeight := h, layers := L\<rparr>"
    using resizeCanvas_shape by blast
  then show "cfg (resizeCanvas vp s) = cfg s"
    "loadedImages (resizeCanvas vp s) = loadedImages s"
    "loadedCount (resizeCanvas vp s) = loadedCount s"
    "calls (resizeCanvas vp s) = calls s"
    "currentFrame (resizeCanvas vp s) = currentFrame s"
    "targetFrame (resizeCanvas vp s) = targetFrame s"
    "velocity (resizeCanvas vp s) = velocity s"
    "scrollVelocity (resizeCanvas vp s) = scrollVelocity s"
    "lastScrollY (resizeCanvas vp s) = lastScrollY s"
    "images (resizeCanvas vp s) = images s"
    "ctx (resizeCanvas vp s) = ctx s"
    by simp_all
qed

lemma beforePreload_fields:
  "totalFrames (cfg (beforePreload env vp s))
     = (if innerWidth vp \<le> mobileBreakpoint (cfg s) then mobileFrameCount (cfg s)
        else totalFrames (cfg s))"
  "loadedImages (beforePreload env vp s) = loadedImages s"
  "loadedCount (beforePreload env vp s) = loadedCount s"
  "calls (beforePreload env vp s) = calls s"
  "currentFrame (beforePreload env vp s) = currentFrame s"
  "velocity (beforePreload env vp s) = velocity s"
  "scrollVelocity (beforePreload env vp s) = scrollVelocity s"
  "lastScrollY (beforePreload env vp s) = lastScrollY s"
  by (simp_all add: beforePreload_def resizeCanvas_fields selectFormat_fields detectDevice_fields)

lemma updateScrollPosition_related:
  "load_related (s\<lparr>scrollVelocity := \<bar>pageYOffset vp - lastScrollY s\<bar>, lastScrollY := pageYOffset vp,
       targetFrame := targetFrameOf (totalFrames (cfg s)) (scrollProgressOf vp)\<rparr>)
     (updateScrollPosition env vp s)"
  unfolding updateScrollPosition_def lazyLoadNearbyFrames_def Let_def
  using lazy_loop_related by simp

lemma updateScrollPosition_fields:
  "cfg (updateScrollPosition env vp s) = cfg s"
  "currentFrame (updateScrollPosition env vp s) = currentFrame s"
  "velocity (updateScrollPosition env vp s) = velocity s"
  "outcome (updateScrollPosition env vp s) = outcome s"
  "scrollVelocity (updateScrollPosition env vp s) = \<bar>pageYOffset vp - lastScrollY s\<bar>"
  "ctx (updateScrollPosition env vp s) = ctx s"
  "loopScheduled (updateScrollPosition env vp s) = loopScheduled s"
  using updateScrollPosition_related[of s vp env]
  by (simp_all add: load_related_def outcome_def)

lemma updateScrollPosition_loads:
  "loadedImages s \<subseteq> loadedImages (updateScrollPosition env vp s)"
  "loads_consistent env s \<Longrightarrow> loads_consistent env (updateScrollPosition env vp s)"
proof -
  let ?t = "s\<lparr>scrollVelocity := \<bar>pageYOffset vp - lastScrollY s\<bar>, lastScrollY := pageYOffset vp,
       targetFrame := targetFrameOf (totalFrames (cfg s)) (scrollProgressOf vp)\<rparr>"
  have t: "loadedImages ?t = loadedImages s" by simp
  show "loadedImages s \<subseteq> loadedImages (updateScrollPosition env vp s)"
    unfolding updateScrollPosition_def lazyLoadNearbyFrames_def Let_def
    using lazy_loop_mono[of ?t] by simp
  assume "loads_consistent env s"
  then have "loads_consistent env ?t" by (simp add: loads_consistent_def)
  then show "loads_consistent env (updateScrollPosition env vp s)"
    unfolding updateScrollPosition_def lazyLoadNearbyFrames_def Let_def
    using lazy_loop_consistent[of env ?t] by simp
qed

lemma finishInit_fields:
  "cfg (finishInit env vp s) = cfg s"
  "currentFrame (finishInit env vp s) = currentFrame s"
  "velocity (finishInit env vp s) = velocity s"
  "outcome (finishInit env vp s) = outcome s @ [OnReady]"
  "targetFrame (finishInit env vp s) = targetFrameOf (totalFrames (cfg s)) (scrollProgressOf vp)"
  "scrollVelocity (finishInit env vp s) = \<bar>pageYOffset vp - lastScrollY s\<bar>"
  "loadedImages (finishInit env vp s) = loadedImages (updateScrollPosition env vp (s\<lparr>scrollListening := True\<rparr>))"
  "loadedCount (finishInit env vp s) = loadedCount (updateScrollPosition env vp (s\<lparr>scrollListening := True\<rparr>))"
  "loopScheduled (finishInit env vp s)"
  using updateScrollPosition_fields[of env vp "s\<lparr>scrollListening := True\<rparr>"]
    updateScrollPosition_targetFrame[of env vp "s\<lparr>scrollListening := True\<rparr>"]
  by (simp_all add: finishInit_def Let_def setupScrollListener_def startAnimationLoop_def
      setupResizeListener_def outcome_def)

subsection \<open>The frame range and the mobile frame count\<close>

lemma or_default_pos: "0 < d \<Longrightarrow> 0 < or_default x (d::nat)"
  by (cases x) simp_all

lemma constructor_fields:
  "totalFrames (cfg (constructor opts)) = or_default (opt_totalFrames opts) 120"
  "mobileFrameCount (cfg (constructor opts)) = or_default (opt_mobileFrameCount opts) 60"
  "mobileBreakpoint (cfg (constructor opts)) = or_default (opt_mobileBreakpoint opts) 768"
  "loadedImages (constructor opts) = {}"
  "loadedCount (constructor opts) = 0"
  "calls (constructor opts) = []"
  "currentFrame (constructor opts) = 0"
  "velocity (constructor opts) = 0"
  "scrollVelocity (constructor opts) = 0"
  "lastScrollY (constructor opts) = 0"
  by (simp_all add: constructor_def)

lemma init_totalFrames:
  "totalFrames (cfg (init env vp s))
     = (if innerWidth vp \<le> mobileBreakpoint (cfg s) then mobileFrameCount (cfg s)
        else totalFrames (cfg s))"
proof -
  let ?b = "beforePreload env vp s"
  have p: "cfg (snd (preloadImages env vp ?b)) = cfg ?b"
    using preloadImages_related[of ?b env vp] by (simp add: load_related_def)
  show ?thesis
    unfolding init_unfold
    by (simp add: p finishInit_fields beforePreload_fields selectFormat_fields detectDevice_fields
        split: option.split)
qed

lemma init_playback:
  "currentFrame (init env vp s) = currentFrame s"
  "velocity (init env vp s) = velocity s"
proof -
  let ?b = "beforePreload env vp s"
  have p: "currentFrame (snd (preloadImages env vp ?b)) = currentFrame ?b"
    "velocity (snd (preloadImages env vp ?b)) = velocity ?b"
    using preloadImages_related[of ?b env vp] by (simp_all add: load_related_def)
  show "currentFrame (init env vp s) = currentFrame s"
    unfolding init_unfold
    by (simp add: p finishInit_fields beforePreload_fields selectFormat_fields detectDevice_fields
        split: option.split)
  show "velocity (init env vp s) = velocity s"
    unfolding init_unfold
    by (simp add: p finishInit_fields beforePreload_fields selectFormat_fields detectDevice_fields
        split: option.split)
qed

lemma new_ForestScroller_totalFrames_pos: "0 < totalFrames (cfg (new_ForestScroller env vp opts))"
  unfolding new_ForestScroller_def init_totalFrames
  by (simp add: constructor_fields or_default_pos)

lemma jumpToFrame_fields:
  "cfg (jumpToFrame vp x s) = cfg s"
  by (simp add: jumpToFrame_def drawFrame_def drawFrameWithBlending_fields Let_def)

lemma jumpToProgress_fields:
  "cfg (jumpToProgress vp x s) = cfg s"
  by (simp add: jumpToProgress_def Let_def jumpToFrame_fields)

lemma lifecycle_fields:
  "cfg (pause s) = cfg s" "currentFrame (pause s) = currentFrame s"
  "cfg (resume s) = cfg s" "currentFrame (resume s) = currentFrame s"
  "cfg (destroy s) = cfg s" "currentFrame (destroy s) = currentFrame s"
  by (simp_all add: pause_def resume_def destroy_def startAnimationLoop_def Let_def)

lemma apply_event_cfg: "cfg (apply_event env e s) = cfg s"
  by (cases e)
    (simp_all add: animate_fields updateScrollPosition_fields resizeCanvas_fields
      jumpToFrame_fields jumpToProgress_fields lifecycle_fields)

lemma run_cfg: "cfg (run env evs s) = cfg s"
  by (induction evs arbitrary: s) (simp_all add: apply_event_cfg)

lemma apply_event_in_range:
  assumes "0 < totalFrames (cfg s)" and "frame_in_range s"
  shows "frame_in_range (apply_event env e s)"
proof (cases e)
  case (Frame vp ts)
  then show ?thesis using assms animate_in_range by simp
next
  case (Scroll vp)
  then show ?thesis using assms by (simp add: frame_in_range_def updateScrollPosition_fields)
next
  case (Resize vp)
  then show ?thesis using assms by (simp add: frame_in_range_def resizeCanvas_fields)
next
  case (JumpToFrame vp x)
  then show ?thesis using assms jumpToFrame_in_range by simp
next
  case (JumpToProgress vp x)
  then show ?thesis using assms jumpToProgress_in_range by simp
next
  case Pause
  then show ?thesis using assms by (simp add: frame_in_range_def lifecycle_fields)
next
  case Resume
  then show ?thesis using assms by (simp add: frame_in_range_def lifecycle_fields)
next
  case Destroy
  then show ?thesis using assms by (simp add: frame_in_range_def lifecycle_fields)
qed

lemma run_in_range:
  "0 < totalFrames (cfg s) \<Longrightarrow> frame_in_range s \<Longrightarrow> frame_in_range (run env evs s)"
proof (induction evs arbitrary: s)
  case Nil
  then show ?case by simp
next
  case (Cons e evs)
  show ?case
    using Cons.IH[of "apply_event env e s"] apply_event_in_range[OF Cons.prems] Cons.prems(1)
    by (simp add: apply_event_cfg)
qed

lemma new_ForestScroller_in_range: "frame_in_range (new_ForestScroller env vp opts)"
  using new_ForestScroller_totalFrames_pos[of env vp opts]
  by (simp add: frame_in_range_def new_ForestScroller_def init_playback constructor_fields)

text \<open>
  Claim C6. \<open>0 \<le> currentFrame \<le> totalFrames - 1\<close> holds in the state the constructor
  and \<open>init\<close> leave and after every sequence of animation frames, scroll and resize
  events, \<open>jumpToFrame\<close> and \<open>jumpToProgress\<close> calls with any real argument, and
  \<open>pause\<close>, \<open>resume\<close> and \<open>destroy\<close>.
\<close>

theorem currentFrame_always_in_range:
  "frame_in_range (run env evs (new_ForestScroller env vp opts))
   \<and> 0 \<le> currentFrame (run env evs (new_ForestScroller env vp opts))
   \<and> currentFrame (run env evs (new_ForestScroller env vp opts))
        \<le> real (totalFrames (cfg (run env evs (new_ForestScroller env vp opts)))) - 1"
  using run_in_range[OF new_ForestScroller_totalFrames_pos new_ForestScroller_in_range, of env evs env vp opts]
  by (simp add: frame_in_range_def)

text \<open>
  Claim C4, amended. If the viewport width is at most \<open>mobileBreakpoint\<close> (equal
  included), \<open>totalFrames\<close> is \<open>mobileFrameCount\<close> from construction on; if the width is
  greater, \<open>totalFrames\<close> stays as configured; no later event changes it.
\<close>

theorem mobile_override:
  "(innerWidth vp \<le> mobileBreakpoint (cfg (constructor opts))
      \<longrightarrow> totalFrames (cfg (run env evs (new_ForestScroller env vp opts)))
            = mobileFrameCount (cfg (constructor opts)))
   \<and> (mobileBreakpoint (cfg (constructor opts)) < innerWidth vp
      \<longrightarrow> totalFrames (cfg (run env evs (new_ForestScroller env vp opts)))
            = totalFrames (cfg (constructor opts)))"
  by (simp add: run_cfg new_ForestScroller_def init_totalFrames)

theorem mobile_override_witness:
  "totalFrames (cfg (run all_frames_env [Scroll desktop, Frame desktop 16, JumpToFrame desktop 10]
       (new_ForestScroller all_frames_env (window_of_width 500) default_options))) = 60
   \<and> totalFrames (cfg (run all_frames_env [Scroll desktop, Frame desktop 16, JumpToFrame desktop 10]
       (new_ForestScroller all_frames_env (window_of_width 1024) default_options))) = 120"
  using mobile_override [of "window_of_width 500" default_options all_frames_env
      "[Scroll desktop, Frame desktop 16, JumpToFrame desktop 10]"]
    mobile_override [of "window_of_width 1024" default_options all_frames_env
      "[Scroll desktop, Frame desktop 16, JumpToFrame desktop 10]"]
  by (simp add: window_of_width_def constructor_fields default_options_def)

text \<open>
  Claim C4 as stated fails at a width equal to the breakpoint: the test is \<open>\<le>\<close>, and
  width 768 with breakpoint 768 replaces the 120 frames by 60.
\<close>

theorem mobile_breakpoint_counterexample:
  "innerWidth (window_of_width 768) = mobileBreakpoint (cfg (constructor default_options))
   \<and> totalFrames (cfg (constructor default_options)) = 120
   \<and> totalFrames (cfg (new_ForestScroller all_frames_env (window_of_width 768) default_options)) = 60"
  by (simp add: new_ForestScroller_def init_totalFrames window_of_width_def constructor_fields
      default_options_def)

subsection \<open>Rest of the draw loop\<close>

lemma beforePreload_fresh:
  "loads_consistent env (beforePreload env vp (constructor opts))"
  "0 < totalFrames (cfg (beforePreload env vp (constructor opts)))"
  "outcome (beforePreload env vp (constructor opts)) = []"
  by (simp_all add: loads_consistent_def outcome_def beforePreload_fields constructor_fields
      or_default_pos)

lemma init_succeeds:
  assumes "canvasPresent env"
    and "\<forall>i. 0 \<le> i \<and> i < int (totalFrames (cfg (beforePreload env vp (constructor opts))))
           \<longrightarrow> fetch env (imageFormat (cfg (beforePreload env vp (constructor opts)))) i \<noteq> None"
  shows "new_ForestScroller env vp opts
     = finishInit env vp (snd (preloadImages env vp (beforePreload env vp (constructor opts))))"
proof -
  have "fst (preloadImages env vp (beforePreload env vp (constructor opts))) = None"
    using preloadImages_None_iff[OF beforePreload_fresh(1,2), where vp1 = vp] assms(2) by simp
  then show ?thesis
    unfolding new_ForestScroller_def init_unfold using assms(1) by simp
qed

lemma init_fails:
  assumes "canvasPresent env"
    and "\<exists>i. 0 \<le> i \<and> i < int (totalFrames (cfg (beforePreload env vp (constructor opts))))
           \<and> fetch env (imageFormat (cfg (beforePreload env vp (constructor opts)))) i = None"
  shows "\<exists>e. new_ForestScroller env vp opts
     = (snd (preloadImages env vp (beforePreload env vp (constructor opts))))
         \<lparr>calls := calls (snd (preloadImages env vp (beforePreload env vp (constructor opts)))) @ [OnError e]\<rparr>"
proof -
  have "fst (preloadImages env vp (beforePreload env vp (constructor opts))) \<noteq> None"
    using preloadImages_None_iff[OF beforePreload_fresh(1,2), where vp1 = vp] assms(2) by blast
  then show ?thesis
    unfolding new_ForestScroller_def init_unfold using assms(1) by auto
qed

lemma frames_fields:
  "cfg (frames vp ts n s) = cfg s"
  "targetFrame (frames vp ts n s) = targetFrame s"
  "scrollVelocity (frames vp ts n s) = scrollVelocity s"
  by (induction n) (simp_all add: animate_fields)

text \<open>
  With the target half a frame below the frame the playback rests on, every tick at rest
  pulls the velocity down by a fixed amount.
\<close>

lemma settled_pull:
  assumes "settled s" and "targetFrame s = of_int m - 1 / 2"
  shows "velocity (animate vp ts s) \<le> velocity s * (3 / 4) - 9 / 400"
proof -
  have "Math_round (targetFrame s) = m"
    unfolding assms(2) Math_round_def by simp
  then have c: "currentFrame s = of_int m" using assms(1) by (simp add: settled_def)
  show ?thesis
    unfolding animate_velocity c assms(2) by simp
qed

lemma never_settles:
  assumes T: "targetFrame s = of_int m - 1 / 2"
  shows "\<exists>n. N \<le> n \<and> n \<le> N + 5 \<and> \<not> settled (frames vp ts n s)"
proof (rule ccontr)
  assume "\<not> (\<exists>n. N \<le> n \<and> n \<le> N + 5 \<and> \<not> settled (frames vp ts n s))"
  then have st: "settled (frames vp ts (N + j) s)" if "j \<le> 5" for j
    using that by auto
  let ?v = "\<lambda>j. velocity (frames vp ts (N + j) s)"
  have step: "?v (Suc j) \<le> ?v j * (3 / 4) - 9 / 400" if "j \<le> 5" for j
    using settled_pull[OF st[OF that], of m vp "ts (N + j)"] T
    by (simp add: frames_fields)
  have v0: "?v 0 < 5 / 100" using st[of 0] by (simp add: settled_def abs_if split: if_splits)
  have v1: "?v 1 < 3 / 200" using step[of 0] v0 by simp
  have v2: "?v 2 < - 9 / 800" using step[of 1] v1 by (simp add: numeral_2_eq_2)
  have v3: "?v 3 < - 99 / 3200" using step[of 2] v2 by (simp add: numeral_3_eq_3 numeral_2_eq_2)
  have v4: "?v 4 < - 585 / 12800" using step[of 3] v3
    by (simp add: eval_nat_numeral)
  have v5: "?v 5 < - 5 / 100" using step[of 4] v4
    by (simp add: eval_nat_numeral)
  have "\<bar>?v 5\<bar> < 5 / 100" using st[of 5] by (simp add: settled_def)
  then show False using v5 by simp
qed

lemma scrollProgressOf_desktop: "scrollProgressOf desktop = 1 / 2"
  by (simp add: scrollProgressOf_def desktop_def window_of_width_def Let_def)

lemma targetFrame_desktop:
  "targetFrame (new_ForestScroller all_frames_env desktop default_options) = 119 / 2"
proof -
  let ?P = "preloadImages all_frames_env desktop (beforePreload all_frames_env desktop (constructor default_options))"
  have e: "new_ForestScroller all_frames_env desktop default_options
            = finishInit all_frames_env desktop (snd ?P)"
    by (rule init_succeeds) (simp_all add: all_frames_env_def)
  have c: "cfg (snd ?P) = cfg (beforePreload all_frames_env desktop (constructor default_options))"
    using preloadImages_related[of _ all_frames_env desktop] by (simp add: load_related_def)
  have n: "totalFrames (cfg (snd ?P)) = 120"
    unfolding c by (simp add: beforePreload_fields constructor_fields default_options_def
        desktop_def window_of_width_def)
  show ?thesis
    unfolding e finishInit_fields n scrollProgressOf_desktop
    by (simp add: targetFrameOf_def easeInOutCubic_def)
qed

text \<open>
  Claim C2 fails on the code. With the default 120 frames and the page held at half of
  its scroll range the target frame is 59.5, and from the constructed state the draw
  loop never comes to rest: among any six consecutive ticks there is one after which the
  velocity is not below the threshold or the current frame is not \<open>round(targetFrame)\<close>.
\<close>

theorem playback_never_settles_at_half_frame:
  "targetFrame (new_ForestScroller all_frames_env desktop default_options) = 119 / 2
   \<and> (\<forall>N. \<exists>n. N \<le> n \<and> n \<le> N + 5
          \<and> \<not> settled (frames desktop ts n
                 (new_ForestScroller all_frames_env desktop default_options)))"
proof -
  have "targetFrame (new_ForestScroller all_frames_env desktop default_options) = of_int 60 - 1 / 2"
    by (simp add: targetFrame_desktop)
  then show ?thesis
    using never_settles targetFrame_desktop by blast
qed

subsection \<open>How initialization ends\<close>

lemma priorityFrames_cong: "cfg t = cfg s \<Longrightarrow> priorityFrames t = priorityFrames s"
  by (simp add: priorityFrames_def)

lemma lazy_loop_noop: "set xs \<subseteq> loadedImages s \<Longrightarrow> lazy_loop env xs s = s"
  by (induction xs) simp_all

lemma beforePreload_idle:
  "\<not> loopScheduled (beforePreload env vp (constructor opts))"
  "isLoading (beforePreload env vp (constructor opts))"
proof -
  let ?p = "(selectFormat env (detectDevice vp (constructor opts)))\<lparr>canvas := True, ctx := True\<rparr>"
  obtain w h L where r: "resizeCanvas vp ?p = ?p\<lparr>canvasWidth := w, canvasHeight := h, layers := L\<rparr>"
    using resizeCanvas_shape by blast
  show "\<not> loopScheduled (beforePreload env vp (constructor opts))"
    unfolding beforePreload_def r
    by (simp add: selectFormat_def detectDevice_def Let_def constructor_def)
  show "isLoading (beforePreload env vp (constructor opts))"
    unfolding beforePreload_def r
    by (simp add: selectFormat_def detectDevice_def Let_def constructor_def)
qed

text \<open>With every frame loaded, the first scroll update requests nothing.\<close>

lemma updateScrollPosition_all_loaded:
  assumes "0 < totalFrames (cfg s)"
    and "loadedImages s = {i. 0 \<le> i \<and> i < int (totalFrames (cfg s))}"
  shows "loadedImages (updateScrollPosition env vp s) = loadedImages s"
    and "loadedCount (updateScrollPosition env vp s) = loadedCount s"
proof -
  let ?t = "s\<lparr>scrollVelocity := \<bar>pageYOffset vp - lastScrollY s\<bar>, lastScrollY := pageYOffset vp,
       targetFrame := targetFrameOf (totalFrames (cfg s)) (scrollProgressOf vp)\<rparr>"
  have "0 \<le> targetFrameOf (totalFrames (cfg s)) (scrollProgressOf vp)"
    unfolding targetFrameOf_def
    using easeInOutCubic_range(1)[of "scrollProgressOf vp"] scrollProgressOf_range[of vp] assms(1)
    by simp
  then have f: "0 \<le> \<lfloor>targetFrameOf (totalFrames (cfg s)) (scrollProgressOf vp)\<rfloor>" by simp
  have "updateScrollPosition env vp s
          = lazy_loop env
              [\<lfloor>targetFrame ?t\<rfloor> ..
                 min (\<lfloor>targetFrame ?t\<rfloor> + int (preloadCount (cfg ?t))) (int (totalFrames (cfg ?t))) - 1] ?t"
    by (simp add: updateScrollPosition_def lazyLoadNearbyFrames_def Let_def)
  also have "\<dots> = ?t"
  proof (rule lazy_loop_noop, rule subsetI)
    fix x
    assume "x \<in> set [\<lfloor>targetFrame ?t\<rfloor> ..
                 min (\<lfloor>targetFrame ?t\<rfloor> + int (preloadCount (cfg ?t))) (int (totalFrames (cfg ?t))) - 1]"
    then have "\<lfloor>targetFrame ?t\<rfloor> \<le> x" "x \<le> int (totalFrames (cfg ?t)) - 1"
      by simp_all
    moreover have "(0::int) \<le> \<lfloor>targetFrame ?t\<rfloor>" using f by simp
    moreover have "cfg ?t = cfg s" by simp
    ultimately have "0 \<le> x \<and> x < int (totalFrames (cfg s))" by (simp only:) linarith
    then show "x \<in> loadedImages ?t" using assms(2) by simp
  qed
  finally have u: "updateScrollPosition env vp s = ?t" .
  show "loadedImages (updateScrollPosition env vp s) = loadedImages s" unfolding u by simp
  show "loadedCount (updateScrollPosition env vp s) = loadedCount s" unfolding u by simp
qed

lemma card_frame_indices: "card {i. 0 \<le> i \<and> i < int n} = n"
proof -
  have "{i. 0 \<le> i \<and> i < int n} = {0 ..< int n}" by auto
  then show ?thesis by simp
qed

text \<open>
  The sequential loads stop at the first file that is not delivered: what gets loaded
  is the part of the list before it.
\<close>

lemma await_each_takeWhile:
  assumes "loads_consistent env s"
  shows "loadedImages (snd (await_each env xs s))
     = loadedImages s \<union> set (takeWhile (\<lambda>i. fetch env (imageFormat (cfg s)) i \<noteq> None) xs)"
  using assms
proof (induction xs arbitrary: s)
  case Nil
  show ?case by simp
next
  case (Cons i rest)
  show ?case
  proof (cases "loadImage env i s")
    case (Inl e)
    then show ?thesis using loadImage_Inl[OF Inl] by simp
  next
    case (Inr s')
    have ok: "fetch env (imageFormat (cfg s)) i \<noteq> None"
      using Inr Cons.prems by (auto simp: loadImage_def loads_consistent_def split: if_splits option.splits)
    have c: "cfg s' = cfg s" using loadImage_related[OF Inr] by (simp add: load_related_def)
    show ?thesis
      using Inr Cons.IH[OF loadImage_consistent[OF Cons.prems Inr]] ok
      unfolding c loadImage_Inr_loaded[OF Inr] by simp
  qed
qed

lemma beforePreload_detached:
  "\<not> scrollListening (beforePreload env vp (constructor opts))"
  "\<not> resizeListening (beforePreload env vp (constructor opts))"
proof -
  let ?p = "(selectFormat env (detectDevice vp (constructor opts)))\<lparr>canvas := True, ctx := True\<rparr>"
  obtain w h L where r: "resizeCanvas vp ?p = ?p\<lparr>canvasWidth := w, canvasHeight := h, layers := L\<rparr>"
    using resizeCanvas_shape by blast
  show "\<not> scrollListening (beforePreload env vp (constructor opts))"
    unfolding beforePreload_def r
    by (simp add: selectFormat_def detectDevice_def Let_def constructor_def)
  show "\<not> resizeListening (beforePreload env vp (constructor opts))"
    unfolding beforePreload_def r
    by (simp add: selectFormat_def detectDevice_def Let_def constructor_def)
qed

lemma finishInit_listening:
  "scrollListening (finishInit env vp s)"
  "resizeListening (finishInit env vp s)"
  "\<not> isLoading (finishInit env vp s)"
proof -
  have u: "load_related (s\<lparr>scrollListening := True\<rparr>\<lparr>scrollVelocity := \<bar>pageYOffset vp - lastScrollY s\<bar>,
        lastScrollY := pageYOffset vp,
        targetFrame := targetFrameOf (totalFrames (cfg s)) (scrollProgressOf vp)\<rparr>)
      (updateScrollPosition env vp (s\<lparr>scrollListening := True\<rparr>))"
    using updateScrollPosition_related[of "s\<lparr>scrollListening := True\<rparr>" vp env] by simp
  then have "scrollListening (updateScrollPosition env vp (s\<lparr>scrollListening := True\<rparr>))"
    by (simp add: load_related_def)
  then show "scrollListening (finishInit env vp s)"
    by (simp add: finishInit_def Let_def setupScrollListener_def startAnimationLoop_def
        setupResizeListener_def)
  show "resizeListening (finishInit env vp s)"
    by (simp add: finishInit_def Let_def setupScrollListener_def startAnimationLoop_def
        setupResizeListener_def)
  show "\<not> isLoading (finishInit env vp s)"
    by (simp add: finishInit_def Let_def setupScrollListener_def startAnimationLoop_def
        setupResizeListener_def)
qed

lemma initialization_listeners:
  assumes "canvasPresent env"
    and "s' = new_ForestScroller env vp opts"
    and "n = totalFrames (cfg s')"
    and "f = imageFormat (cfg s')"
  shows "((\<forall>i. 0 \<le> i \<and> i < int n \<longrightarrow> fetch env f i \<noteq> None)
            \<longrightarrow> scrollListening s' \<and> resizeListening s' \<and> \<not> isLoading s')
    \<and> ((\<exists>i. 0 \<le> i \<and> i < int n \<and> fetch env f i = None)
            \<longrightarrow> \<not> scrollListening s' \<and> \<not> resizeListening s')
    \<and> ((\<exists>i \<in> set (priorityFrames s'). fetch env f i = None)
            \<longrightarrow> loadedImages s'
                = set (takeWhile (\<lambda>i. fetch env f i \<noteq> None) (priorityFrames s')))"
proof -
  let ?b = "beforePreload env vp (constructor opts)"
  let ?p = "snd (preloadImages env vp ?b)"
  let ?ok = "\<lambda>i. fetch env (imageFormat (cfg ?b)) i \<noteq> None"
  let ?all = "\<forall>i. 0 \<le> i \<and> i < int (totalFrames (cfg ?b)) \<longrightarrow> ?ok i"
  note fresh = beforePreload_fresh[of env vp opts]
  have rel: "load_related ?b ?p" by (rule preloadImages_related)
  have cp: "cfg ?p = cfg ?b" using rel by (simp add: load_related_def)
  have lb: "loadedImages ?b = {}" by (simp add: beforePreload_fields constructor_fields)
  have good: "s' = finishInit env vp ?p" if ?all
    unfolding assms(2) using init_succeeds[OF assms(1)] that by simp
  have bad: "\<exists>e. s' = ?p\<lparr>calls := calls ?p @ [OnError e]\<rparr>" if "\<not> ?all"
  proof -
    have "\<exists>i. 0 \<le> i \<and> i < int (totalFrames (cfg ?b)) \<and> fetch env (imageFormat (cfg ?b)) i = None"
      using that by auto
    then show ?thesis
      unfolding assms(2) by (rule init_fails[OF assms(1)])
  qed
  have cs: "cfg s' = cfg ?b"
  proof (cases ?all)
    case True
    then show ?thesis using good by (simp add: finishInit_fields cp)
  next
    case False
    then show ?thesis using bad cp by auto
  qed
  have n: "n = totalFrames (cfg ?b)" and f: "f = imageFormat (cfg ?b)"
    using assms(3,4) cs by simp_all
  have pr: "priorityFrames s' = priorityFrames ?b" by (rule priorityFrames_cong[OF cs])
  have c1: "scrollListening s' \<and> resizeListening s' \<and> \<not> isLoading s'" if a: ?all
    unfolding good[OF a] by (simp add: finishInit_listening)
  have c2: "\<not> scrollListening s' \<and> \<not> resizeListening s'" if a: "\<not> ?all"
  proof -
    obtain e where e: "s' = ?p\<lparr>calls := calls ?p @ [OnError e]\<rparr>" using bad[OF a] by blast
    show ?thesis
      unfolding e using rel beforePreload_detached[of env vp opts] by (simp add: load_related_def)
  qed
  have c3: "loadedImages s' = set (takeWhile (\<lambda>i. fetch env f i \<noteq> None) (priorityFrames s'))"
    if a: "\<exists>i \<in> set (priorityFrames s'). fetch env f i = None"
  proof -
    let ?a = "await_each env (priorityFrames ?b) ?b"
    obtain i where i: "i \<in> set (priorityFrames ?b)" "fetch env (imageFormat (cfg ?b)) i = None"
      using a unfolding pr f by blast
    have "0 \<le> i \<and> i < int (totalFrames (cfg ?b))"
      using set_priorityFrames[OF fresh(2)] i(1) by auto
    then have na: "\<not> ?all" using i(2) by blast
    have "fst ?a \<noteq> None"
      using await_each_None_iff[OF fresh(1), of "priorityFrames ?b"] i by blast
    then have pa: "preloadImages env vp ?b = ?a"
      unfolding preloadImages_unfold by simp
    have "loadedImages (snd ?a) = loadedImages ?b \<union> set (takeWhile ?ok (priorityFrames ?b))"
      by (rule await_each_takeWhile[OF fresh(1)])
    then have "loadedImages ?p = set (takeWhile ?ok (priorityFrames ?b))"
      unfolding pa lb by simp
    moreover obtain e where "s' = ?p\<lparr>calls := calls ?p @ [OnError e]\<rparr>" using bad[OF na] by blast
    ultimately show ?thesis unfolding pr f by simp
  qed
  show ?thesis
    using c1 c2 c3 unfolding n f by blast
qed

lemma initialization_outcome:
  assumes "canvasPresent env"
    and "s' = new_ForestScroller env vp opts"
    and "n = totalFrames (cfg s')"
    and "f = imageFormat (cfg s')"
  shows "((\<forall>i. 0 \<le> i \<and> i < int n \<longrightarrow> fetch env f i \<noteq> None)
            \<longrightarrow> outcome s' = [OnReady] \<and> loopScheduled s'
                \<and> m_loadedFrames (getMetrics s') = n)
    \<and> ((\<exists>i. 0 \<le> i \<and> i < int n \<and> fetch env f i = None)
            \<longrightarrow> (\<exists>e. outcome s' = [OnError e]) \<and> \<not> loopScheduled s' \<and> isLoading s')
    \<and> m_loadedFrames (getMetrics s') = card (loadedImages s')
    \<and> (\<forall>i \<in> loadedImages s'. fetch env f i \<noteq> None)
    \<and> ((\<forall>i \<in> set (priorityFrames s'). fetch env f i \<noteq> None)
            \<longrightarrow> (\<forall>i. 0 \<le> i \<and> i < int n \<and> fetch env f i \<noteq> None \<longrightarrow> i \<in> loadedImages s'))
    \<and> (fetch env f 0 = None \<longrightarrow> loadedImages s' = {})"
proof -
  let ?b = "beforePreload env vp (constructor opts)"
  let ?p = "snd (preloadImages env vp ?b)"
  let ?ok = "\<lambda>i. fetch env (imageFormat (cfg ?b)) i \<noteq> None"
  let ?all = "\<forall>i. 0 \<le> i \<and> i < int (totalFrames (cfg ?b)) \<longrightarrow> ?ok i"
  note fresh = beforePreload_fresh[of env vp opts]
  have rel: "load_related ?b ?p" by (rule preloadImages_related)
  have cp: "cfg ?p = cfg ?b" using rel by (simp add: load_related_def)
  have consp: "loads_consistent env ?p" by (rule preloadImages_consistent[OF fresh(1)])
  have lb: "loadedImages ?b = {}" by (simp add: beforePreload_fields constructor_fields)
  \<comment> \<open>the two ways initialization ends\<close>
  have good: "s' = finishInit env vp ?p" if ?all
    unfolding assms(2) using init_succeeds[OF assms(1)] that by simp
  have bad: "\<exists>e. s' = ?p\<lparr>calls := calls ?p @ [OnError e]\<rparr>" if "\<not> ?all"
  proof -
    have "\<exists>i. 0 \<le> i \<and> i < int (totalFrames (cfg ?b)) \<and> fetch env (imageFormat (cfg ?b)) i = None"
      using that by auto
    then show ?thesis
      unfolding assms(2) by (rule init_fails[OF assms(1)])
  qed
  have cs: "cfg s' = cfg ?b"
  proof (cases ?all)
    case True
    then show ?thesis using good by (simp add: finishInit_fields cp)
  next
    case False
    then show ?thesis using bad cp by auto
  qed
  have n: "n = totalFrames (cfg ?b)" and f: "f = imageFormat (cfg ?b)"
    using assms(3,4) cs by simp_all
  have pr: "priorityFrames s' = priorityFrames ?b" by (rule priorityFrames_cong[OF cs])
  \<comment> \<open>bookkeeping\<close>
  have cons: "loads_consistent env s'"
  proof (cases ?all)
    case True
    have "loads_consistent env (updateScrollPosition env vp (?p\<lparr>scrollListening := True\<rparr>))"
      by (rule updateScrollPosition_loads(2)) (use consp in \<open>simp add: loads_consistent_def\<close>)
    then show ?thesis
      unfolding good[OF True]
      by (simp add: loads_consistent_def finishInit_fields updateScrollPosition_fields)
  next
    case False
    then show ?thesis using bad consp by (auto simp: loads_consistent_def)
  qed
  have c3: "m_loadedFrames (getMetrics s') = card (loadedImages s')"
    using cons by (simp add: getMetrics_def loads_consistent_def)
  have c4: "\<forall>i \<in> loadedImages s'. fetch env f i \<noteq> None"
    using cons unfolding f cs[symmetric] by (simp add: loads_consistent_def)
  \<comment> \<open>every frame loads\<close>
  have c1: "outcome s' = [OnReady] \<and> loopScheduled s' \<and> m_loadedFrames (getMetrics s') = n"
    if a: ?all
  proof -
    have "\<forall>i \<in> set (priorityFrames ?b). ?ok i"
    proof
      fix i
      assume "i \<in> set (priorityFrames ?b)"
      then have "0 \<le> i \<and> i < int (totalFrames (cfg ?b))"
        using set_priorityFrames[OF fresh(2)] by auto
      then show "?ok i" using a by blast
    qed
    then have "loadedImages ?p = loadedImages ?b
        \<union> {i. 0 \<le> i \<and> i < int (totalFrames (cfg ?b)) \<and> ?ok i}"
      by (rule preloadImages_loaded[OF fresh(1,2)])
    also have "\<dots> = {i. 0 \<le> i \<and> i < int (totalFrames (cfg ?b))}"
      unfolding lb using a by blast
    finally have lp: "loadedImages ?p = {i. 0 \<le> i \<and> i < int (totalFrames (cfg ?b))}" .
    let ?q = "?p\<lparr>scrollListening := True\<rparr>"
    have "loadedImages (updateScrollPosition env vp ?q) = loadedImages ?q"
      by (rule updateScrollPosition_all_loaded(1)) (use fresh(2) lp cp in simp_all)
    then have "loadedImages s' = {i. 0 \<le> i \<and> i < int n}"
      unfolding good[OF a] n by (simp add: finishInit_fields lp)
    then have "m_loadedFrames (getMetrics s') = n"
      using c3 by (simp add: card_frame_indices)
    moreover have "outcome ?p = []" using rel fresh(3) by (simp add: load_related_def)
    ultimately show ?thesis
      unfolding good[OF a] by (simp add: finishInit_fields)
  qed
  \<comment> \<open>some frame fails\<close>
  have c2: "(\<exists>e. outcome s' = [OnError e]) \<and> \<not> loopScheduled s' \<and> isLoading s'"
    if a: "\<not> ?all"
  proof -
    obtain e where e: "s' = ?p\<lparr>calls := calls ?p @ [OnError e]\<rparr>" using bad[OF a] by blast
    have "outcome ?p = []" using rel fresh(3) by (simp add: load_related_def)
    then have "outcome s' = [OnError e]" unfolding e by (simp add: outcome_def)
    moreover have "\<not> loopScheduled s'" "isLoading s'"
      unfolding e using rel beforePreload_idle[of env vp opts] by (simp_all add: load_related_def)
    ultimately show ?thesis by blast
  qed
  have c5: "\<forall>i. 0 \<le> i \<and> i < int n \<and> fetch env f i \<noteq> None \<longrightarrow> i \<in> loadedImages s'"
    if a: "\<forall>i \<in> set (priorityFrames s'). fetch env f i \<noteq> None"
  proof -
    have lp: "loadedImages ?p = {i. 0 \<le> i \<and> i < int n \<and> fetch env f i \<noteq> None}"
      using preloadImages_loaded[OF fresh(1,2), where vp = vp] a lb unfolding pr f n by simp
    have "loadedImages ?p \<subseteq> loadedImages s'"
    proof (cases ?all)
      case True
      show ?thesis
        unfolding good[OF True] finishInit_fields
        using updateScrollPosition_loads(1)[of "?p\<lparr>scrollListening := True\<rparr>" env vp] by simp
    next
      case False
      then show ?thesis using bad by auto
    qed
    then show ?thesis unfolding lp by blast
  qed
  have c6: "loadedImages s' = {}" if a: "fetch env f 0 = None"
  proof -
    have p0: "preloadImages env vp ?b = (Some (FailedToLoadFrame 0), ?b)"
      by (rule preloadImages_first_fails) (use a lb f in simp_all)
    have "\<not> ?all" using a fresh(2) unfolding f by auto
    then show ?thesis using bad lb unfolding p0 by auto
  qed
  show ?thesis
    using c1 c2 c3 c4 c5 c6 unfolding n f by blast
qed

text \<open>
  Claim C1, amended. During initialization the three priority frames are loaded one
  after the other and the remaining frames are then requested together. If every frame
  loads, initialization completes: \<open>onReady\<close> is invoked, the scroll and resize
  listeners are attached, the draw loop runs, \<open>isLoading\<close> is cleared and
  \<open>getMetrics().loadedFrames\<close> equals \<open>totalFrames\<close>. If some frame fails to load, the
  preload is rejected and initialization does not complete: \<open>onError\<close> is invoked
  instead of \<open>onReady\<close>, no listener is attached, the draw loop is not started and
  \<open>isLoading\<close> stays set. In every case \<open>loadedFrames\<close> counts exactly the frames that
  loaded, all of them delivered by the server; when the priority frames load, a failing
  frame does not keep any other frame from loading; when a priority frame fails, the
  frames loaded are the priority frames before the first failing one and nothing else,
  so none when the first frame fails.
\<close>

theorem preload_outcome:
  assumes "canvasPresent env"
    and "s' = new_ForestScroller env vp opts"
    and "n = totalFrames (cfg s')"
    and "f = imageFormat (cfg s')"
  shows "((\<forall>i. 0 \<le> i \<and> i < int n \<longrightarrow> fetch env f i \<noteq> None)
            \<longrightarrow> outcome s' = [OnReady] \<and> loopScheduled s'
                \<and> scrollListening s' \<and> resizeListening s' \<and> \<not> isLoading s'
                \<and> m_loadedFrames (getMetrics s') = n)
    \<and> ((\<exists>i. 0 \<le> i \<and> i < int n \<and> fetch env f i = None)
            \<longrightarrow> (\<exists>e. outcome s' = [OnError e]) \<and> \<not> loopScheduled s'
                \<and> \<not> scrollListening s' \<and> \<not> resizeListening s' \<and> isLoading s')
    \<and> m_loadedFrames (getMetrics s') = card (loadedImages s')
    \<and> (\<forall>i \<in> loadedImages s'. fetch env f i \<noteq> None)
    \<and> ((\<forall>i \<in> set (priorityFrames s'). fetch env f i \<noteq> None)
            \<longrightarrow> (\<forall>i. 0 \<le> i \<and> i < int n \<and> fetch env f i \<noteq> None \<longrightarrow> i \<in> loadedImages s'))
    \<and> (fetch env f 0 = None \<longrightarrow> loadedImages s' = {})
    \<and> ((\<exists>i \<in> set (priorityFrames s'). fetch env f i = None)
            \<longrightarrow> loadedImages s'
                = set (takeWhile (\<lambda>i. fetch env f i \<noteq> None) (priorityFrames s')))"
proof -
  note o = initialization_outcome[OF assms]
  note l = initialization_listeners[OF assms]
  note o1 = conjunct1[OF o]
  note o2 = conjunct1[OF conjunct2[OF o]]
  note o3 = conjunct2[OF conjunct2[OF o]]
  note l1 = conjunct1[OF l]
  note l2 = conjunct1[OF conjunct2[OF l]]
  note l3 = conjunct2[OF conjunct2[OF l]]
  have a: "(\<forall>i. 0 \<le> i \<and> i < int n \<longrightarrow> fetch env f i \<noteq> None)
            \<longrightarrow> outcome s' = [OnReady] \<and> loopScheduled s'
                \<and> scrollListening s' \<and> resizeListening s' \<and> \<not> isLoading s'
                \<and> m_loadedFrames (getMetrics s') = n"
    using o1 l1 by blast
  have b: "(\<exists>i. 0 \<le> i \<and> i < int n \<and> fetch env f i = None)
            \<longrightarrow> (\<exists>e. outcome s' = [OnError e]) \<and> \<not> loopScheduled s'
                \<and> \<not> scrollListening s' \<and> \<not> resizeListening s' \<and> isLoading s'"
    using o2 l2 by blast
  show ?thesis
    using a b o3 l3 by blast
qed

theorem preload_outcome_witness:
  "outcome (new_ForestScroller all_frames_env desktop default_options) = [OnReady]
   \<and> scrollListening (new_ForestScroller all_frames_env desktop default_options)
   \<and> m_loadedFrames (getMetrics (new_ForestScroller all_frames_env desktop default_options)) = 120
   \<and> (\<exists>e. outcome (new_ForestScroller (missing_frame_env 4) desktop default_options) = [OnError e])
   \<and> \<not> loopScheduled (new_ForestScroller (missing_frame_env 4) desktop default_options)
   \<and> \<not> scrollListening (new_ForestScroller (missing_frame_env 4) desktop default_options)
   \<and> loadedImages (new_ForestScroller (missing_frame_env 60) desktop default_options) = {0}"
proof -
  let ?g = "new_ForestScroller all_frames_env desktop default_options"
  let ?b = "new_ForestScroller (missing_frame_env 4) desktop default_options"
  let ?m = "new_ForestScroller (missing_frame_env 60) desktop default_options"
  have n: "totalFrames (cfg ?g) = 120" "totalFrames (cfg ?b) = 120" "totalFrames (cfg ?m) = 120"
    by (simp_all add: new_ForestScroller_def init_totalFrames constructor_fields
        default_options_def desktop_def window_of_width_def)
  have miss: "\<exists>i. 0 \<le> i \<and> i < int (totalFrames (cfg ?b))
      \<and> fetch (missing_frame_env 4) (imageFormat (cfg ?b)) i = None"
    unfolding n by (rule exI[of _ 4]) (simp add: missing_frame_env_def)
  have ok: "\<forall>i. 0 \<le> i \<and> i < int (totalFrames (cfg ?g))
      \<longrightarrow> fetch all_frames_env (imageFormat (cfg ?g)) i \<noteq> None"
    by (simp add: all_frames_env_def)
  have pm: "priorityFrames ?m = [0, 60, 119]"
    unfolding priorityFrames_def n by simp
  have mid: "\<exists>i \<in> set (priorityFrames ?m).
      fetch (missing_frame_env 60) (imageFormat (cfg ?m)) i = None"
    unfolding pm by (simp add: missing_frame_env_def)
  have cg: "canvasPresent all_frames_env" by (simp add: all_frames_env_def)
  have cb: "canvasPresent (missing_frame_env k)" for k by (simp add: missing_frame_env_def)
  have g: "outcome ?g = [OnReady] \<and> loopScheduled ?g
      \<and> scrollListening ?g \<and> resizeListening ?g \<and> \<not> isLoading ?g
      \<and> m_loadedFrames (getMetrics ?g) = totalFrames (cfg ?g)"
    by (rule mp[OF conjunct1[OF preload_outcome[OF cg refl refl refl, of desktop default_options]] ok])
  have b: "(\<exists>e. outcome ?b = [OnError e]) \<and> \<not> loopScheduled ?b
      \<and> \<not> scrollListening ?b \<and> \<not> resizeListening ?b \<and> isLoading ?b"
    by (rule mp[OF conjunct1[OF conjunct2[OF
            preload_outcome[OF cb refl refl refl, of 4 desktop default_options]]] miss])
  have "loadedImages ?m
      = set (takeWhile (\<lambda>i. fetch (missing_frame_env 60) (imageFormat (cfg ?m)) i \<noteq> None)
               (priorityFrames ?m))"
    by (rule mp[OF conjunct2[OF conjunct2[OF conjunct2[OF conjunct2[OF conjunct2[OF conjunct2[OF
            preload_outcome[OF cb refl refl refl, of 60 desktop default_options]]]]]]] mid])
  then have m: "loadedImages ?m = {0}"
    unfolding pm by (simp add: missing_frame_env_def)
  show ?thesis
    using g b m n(1) by simp
qed

text \<open>
  Claim C1 as stated fails: with the file of frame index 4 missing, \<open>onReady\<close> is never
  invoked and the draw loop is not started; with the file of frame index 0 missing, no
  other frame is loaded.
\<close>

theorem preload_failure_counterexample:
  "OnReady \<notin> set (calls (new_ForestScroller (missing_frame_env 4) desktop default_options))
   \<and> \<not> loopScheduled (new_ForestScroller (missing_frame_env 4) desktop default_options)
   \<and> loadedImages (new_ForestScroller (missing_frame_env 0) desktop default_options) = {}"
proof -
  let ?b = "new_ForestScroller (missing_frame_env 4) desktop default_options"
  let ?z = "new_ForestScroller (missing_frame_env 0) desktop default_options"
  have n: "totalFrames (cfg ?b) = 120"
    by (simp add: new_ForestScroller_def init_totalFrames constructor_fields
        default_options_def desktop_def window_of_width_def)
  have miss: "\<exists>i. 0 \<le> i \<and> i < int (totalFrames (cfg ?b))
      \<and> fetch (missing_frame_env 4) (imageFormat (cfg ?b)) i = None"
    unfolding n by (rule exI[of _ 4]) (simp add: missing_frame_env_def)
  have cb: "canvasPresent (missing_frame_env 4)" by (simp add: missing_frame_env_def)
  have cz: "canvasPresent (missing_frame_env 0)" by (simp add: missing_frame_env_def)
  have "(\<exists>e. outcome ?b = [OnError e]) \<and> \<not> loopScheduled ?b \<and> isLoading ?b"
    by (rule mp[OF conjunct1[OF conjunct2[OF
            initialization_outcome[OF cb refl refl refl, of desktop default_options]]] miss])
  then obtain e where e: "outcome ?b = [OnError e]" and idle: "\<not> loopScheduled ?b"
    by blast
  have "OnReady \<notin> set (calls ?b)"
  proof
    assume "OnReady \<in> set (calls ?b)"
    then have "OnReady \<in> set (outcome ?b)" by (simp add: outcome_def)
    then show False unfolding e by simp
  qed
  moreover have "loadedImages ?z = {}"
  proof -
    note z = initialization_outcome[OF cz refl refl refl, of desktop default_options]
    have "fetch (missing_frame_env 0) (imageFormat (cfg ?z)) 0 = None \<longrightarrow> loadedImages ?z = {}"
      by (rule conjunct2[OF conjunct2[OF conjunct2[OF conjunct2[OF conjunct2[OF z]]]]])
    then show ?thesis by (simp add: missing_frame_env_def)
  qed
  ultimately show ?thesis using idle by blast
qed

subsection \<open>The smoothing option\<close>

lemma with_smoothing_reads:
  "canvas (with_smoothing x s) = canvas s"
  "ctx (with_smoothing x s) = ctx s"
  "canvasWidth (with_smoothing x s) = canvasWidth s"
  "canvasHeight (with_smoothing x s) = canvasHeight s"
  "images (with_smoothing x s) = images s"
  "loadedImages (with_smoothing x s) = loadedImages s"
  "currentFrame (with_smoothing x s) = currentFrame s"
  "targetFrame (with_smoothing x s) = targetFrame s"
  "previousFrame (with_smoothing x s) = previousFrame s"
  "isLoading (with_smoothing x s) = isLoading s"
  "loadedCount (with_smoothing x s) = loadedCount s"
  "isMobile (with_smoothing x s) = isMobile s"
  "animationFrameId (with_smoothing x s) = animationFrameId s"
  "loopScheduled (with_smoothing x s) = loopScheduled s"
  "scrollListening (with_smoothing x s) = scrollListening s"
  "resizeListening (with_smoothing x s) = resizeListening s"
  "supportsWebP (with_smoothing x s) = supportsWebP s"
  "velocity (with_smoothing x s) = velocity s"
  "lastScrollY (with_smoothing x s) = lastScrollY s"
  "scrollVelocity (with_smoothing x s) = scrollVelocity s"
  "lastFrameTime (with_smoothing x s) = lastFrameTime s"
  "fps (with_smoothing x s) = fps s"
  "layers (with_smoothing x s) = layers s"
  "calls (with_smoothing x s) = calls s"
  "canvasId (cfg (with_smoothing x s)) = canvasId (cfg s)"
  "imagePath (cfg (with_smoothing x s)) = imagePath (cfg s)"
  "imagePrefix (cfg (with_smoothing x s)) = imagePrefix (cfg s)"
  "imageFormat (cfg (with_smoothing x s)) = imageFormat (cfg s)"
  "totalFrames (cfg (with_smoothing x s)) = totalFrames (cfg s)"
  "preloadCount (cfg (with_smoothing x s)) = preloadCount (cfg s)"
  "mobileFrameCount (cfg (with_smoothing x s)) = mobileFrameCount (cfg s)"
  "mobileBreakpoint (cfg (with_smoothing x s)) = mobileBreakpoint (cfg s)"
  by (simp_all add: with_smoothing_def)

lemma with_smoothing_updates:
  "(with_smoothing x s)\<lparr>canvas := v0\<rparr> = with_smoothing x (s\<lparr>canvas := v0\<rparr>)"
  "(with_smoothing x s)\<lparr>ctx := v1\<rparr> = with_smoothing x (s\<lparr>ctx := v1\<rparr>)"
  "(with_smoothing x s)\<lparr>canvasWidth := v2\<rparr> = with_smoothing x (s\<lparr>canvasWidth := v2\<rparr>)"
  "(with_smoothing x s)\<lparr>canvasHeight := v3\<rparr> = with_smoothing x (s\<lparr>canvasHeight := v3\<rparr>)"
  "(with_smoothing x s)\<lparr>images := v4\<rparr> = with_smoothing x (s\<lparr>images := v4\<rparr>)"
  "(with_smoothing x s)\<lparr>loadedImages := v5\<rparr> = with_smoothing x (s\<lparr>loadedImages := v5\<rparr>)"
  "(with_smoothing x s)\<lparr>currentFrame := v6\<rparr> = with_smoothing x (s\<lparr>currentFrame := v6\<rparr>)"
  "(with_smoothing x s)\<lparr>targetFrame := v7\<rparr> = with_smoothing x (s\<lparr>targetFrame := v7\<rparr>)"
  "(with_smoothing x s)\<lparr>previousFrame := v8\<rparr> = with_smoothing x (s\<lparr>previousFrame := v8\<rparr>)"
  "(with_smoothing x s)\<lparr>isLoading := v9\<rparr> = with_smoothing x (s\<lparr>isLoading := v9\<rparr>)"
  "(with_smoothing x s)\<lparr>loadedCount := v10\<rparr> = with_smoothing x (s\<lparr>loadedCount := v10\<rparr>)"
  "(with_smoothing x s)\<lparr>isMobile := v11\<rparr> = with_smoothing x (s\<lparr>isMobile := v11\<rparr>)"
  "(with_smoothing x s)\<lparr>animationFrameId := v12\<rparr> = with_smoothing x (s\<lparr>animationFrameId := v12\<rparr>)"
  "(with_smoothing x s)\<lparr>loopScheduled := v13\<rparr> = with_smoothing x (s\<lparr>loopScheduled := v13\<rparr>)"
  "(with_smoothing x s)\<lparr>scrollListening := v14\<rparr> = with_smoothing x (s\<lparr>scrollListening := v14\<rparr>)"
  "(with_smoothing x s)\<lparr>resizeListening := v15\<rparr> = with_smoothing x (s\<lparr>resizeListening := v15\<rparr>)"
  "(with_smoothing x s)\<lparr>supportsWebP := v16\<rparr> = with_smoothing x (s\<lparr>supportsWebP := v16\<rparr>)"
  "(with_smoothing x s)\<lparr>velocity := v17\<rparr> = with_smoothing x (s\<lparr>velocity := v17\<rparr>)"
  "(with_smoothing x s)\<lparr>lastScrollY := v18\<rparr> = with_smoothing x (s\<lparr>lastScrollY := v18\<rparr>)"
  "(with_smoothing x s)\<lparr>scrollVelocity := v19\<rparr> = with_smoothing x (s\<lparr>scrollVelocity := v19\<rparr>)"
  "(with_smoothing x s)\<lparr>lastFrameTime := v20\<rparr> = with_smoothing x (s\<lparr>lastFrameTime := v20\<rparr>)"
  "(with_smoothing x s)\<lparr>fps := v21\<rparr> = with_smoothing x (s\<lparr>fps := v21\<rparr>)"
  "(with_smoothing x s)\<lparr>layers := v22\<rparr> = with_smoothing x (s\<lparr>layers := v22\<rparr>)"
  "(with_smoothing x s)\<lparr>calls := v23\<rparr> = with_smoothing x (s\<lparr>calls := v23\<rparr>)"
  by (simp_all add: with_smoothing_def)

lemmas ws = with_smoothing_reads with_smoothing_updates

lemma blendedLayers_smoothing: "blendedLayers vp e (with_smoothing x s) = blendedLayers vp e s"
  unfolding blendedLayers_def applyDepthGrading_def with_smoothing_reads by (rule refl)

lemma drawFrameWithBlending_smoothing:
  "drawFrameWithBlending vp e (with_smoothing x s) = with_smoothing x (drawFrameWithBlending vp e s)"
  by (simp add: drawFrameWithBlending_def blendedLayers_smoothing ws split: option.split)

lemma animate_smoothing: "animate vp ts (with_smoothing x s) = with_smoothing x (animate vp ts s)"
  unfolding animate_def Let_def with_smoothing_reads with_smoothing_updates
    drawFrameWithBlending_smoothing
  by (rule refl)

lemma resizeCanvas_smoothing:
  "resizeCanvas vp (with_smoothing x s) = with_smoothing x (resizeCanvas vp s)"
  by (simp add: resizeCanvas_def Let_def ws drawFrameWithBlending_smoothing split: option.split)

lemma updateProgress_smoothing:
  "updateProgress (with_smoothing x s) = with_smoothing x (updateProgress s)"
  by (simp add: updateProgress_def Let_def ws)

lemma loadImage_smoothing:
  "loadImage env i (with_smoothing x s)
     = (case loadImage env i s of Inl e \<Rightarrow> Inl e | Inr s' \<Rightarrow> Inr (with_smoothing x s'))"
  by (simp add: loadImage_def ws updateProgress_smoothing split: option.split)

lemma await_each_smoothing:
  "await_each env xs (with_smoothing x s)
     = (fst (await_each env xs s), with_smoothing x (snd (await_each env xs s)))"
  by (induction xs arbitrary: s) (simp_all add: loadImage_smoothing split: sum.split)

lemma promise_all_smoothing:
  "promise_all env xs (with_smoothing x s)
     = (fst (promise_all env xs s), with_smoothing x (snd (promise_all env xs s)))"
  by (induction xs arbitrary: s) (simp_all add: loadImage_smoothing split: sum.split)

lemma lazy_loop_smoothing:
  "lazy_loop env xs (with_smoothing x s) = with_smoothing x (lazy_loop env xs s)"
  by (induction xs arbitrary: s) (simp_all add: loadImage_smoothing ws split: sum.split)

lemma updateScrollPosition_smoothing:
  "updateScrollPosition env vp (with_smoothing x s) = with_smoothing x (updateScrollPosition env vp s)"
  by (simp add: updateScrollPosition_def lazyLoadNearbyFrames_def Let_def ws lazy_loop_smoothing)

lemma jumpToFrame_smoothing:
  "jumpToFrame vp y (with_smoothing x s) = with_smoothing x (jumpToFrame vp y s)"
  by (simp add: jumpToFrame_def drawFrame_def Let_def ws drawFrameWithBlending_smoothing)

lemma jumpToProgress_smoothing:
  "jumpToProgress vp y (with_smoothing x s) = with_smoothing x (jumpToProgress vp y s)"
  by (simp add: jumpToProgress_def Let_def ws jumpToFrame_smoothing)

lemma lifecycle_smoothing:
  "pause (with_smoothing x s) = with_smoothing x (pause s)"
  "resume (with_smoothing x s) = with_smoothing x (resume s)"
  "destroy (with_smoothing x s) = with_smoothing x (destroy s)"
  by (simp_all add: pause_def resume_def destroy_def startAnimationLoop_def Let_def ws)

lemma apply_event_smoothing:
  "apply_event env e (with_smoothing x s) = with_smoothing x (apply_event env e s)"
  by (cases e)
    (simp_all add: ws animate_smoothing updateScrollPosition_smoothing resizeCanvas_smoothing
      jumpToFrame_smoothing jumpToProgress_smoothing lifecycle_smoothing)

lemma run_smoothing: "run env evs (with_smoothing x s) = with_smoothing x (run env evs s)"
  by (induction evs arbitrary: s) (simp_all add: apply_event_smoothing)

lemma detectDevice_smoothing:
  "detectDevice vp (with_smoothing x s) = with_smoothing x (detectDevice vp s)"
  by (simp add: detectDevice_def Let_def with_smoothing_def)

lemma selectFormat_smoothing:
  "selectFormat env (with_smoothing x s) = with_smoothing x (selectFormat env s)"
  by (simp add: selectFormat_def with_smoothing_def)

lemma priorityFrames_smoothing: "priorityFrames (with_smoothing x s) = priorityFrames s"
  by (simp add: priorityFrames_def ws)

lemma remainingFrames_smoothing: "remainingFrames (with_smoothing x s) = remainingFrames s"
  by (simp add: remainingFrames_def priorityFrames_smoothing ws)

lemma drawFrame_smoothing:
  "drawFrame vp e (with_smoothing x s) = with_smoothing x (drawFrame vp e s)"
  by (simp add: drawFrame_def drawFrameWithBlending_smoothing)

lemma preloadImages_smoothing:
  "preloadImages env vp (with_smoothing x s)
     = (fst (preloadImages env vp s), with_smoothing x (snd (preloadImages env vp s)))"
proof -
  let ?a = "await_each env (priorityFrames s) s"
  let ?m = "case images (snd ?a) 0 of None \<Rightarrow> snd ?a | Some _ \<Rightarrow> drawFrame vp 0 (snd ?a)"
  have m: "(case images (with_smoothing x (snd ?a)) 0 of None \<Rightarrow> with_smoothing x (snd ?a)
            | Some _ \<Rightarrow> drawFrame vp 0 (with_smoothing x (snd ?a))) = with_smoothing x ?m"
    by (simp add: ws drawFrame_smoothing split: option.split)
  show ?thesis
    unfolding preloadImages_unfold priorityFrames_smoothing remainingFrames_smoothing
      await_each_smoothing fst_conv snd_conv m promise_all_smoothing
    by (simp add: prod_eq_iff)
qed

lemma finishInit_smoothing:
  "finishInit env vp (with_smoothing x s) = with_smoothing x (finishInit env vp s)"
  by (simp add: finishInit_def Let_def setupScrollListener_def startAnimationLoop_def
      setupResizeListener_def ws updateScrollPosition_smoothing)

lemma beforePreload_smoothing:
  "beforePreload env vp (with_smoothing x s) = with_smoothing x (beforePreload env vp s)"
  by (simp add: beforePreload_def detectDevice_smoothing selectFormat_smoothing ws
      resizeCanvas_smoothing)

lemma init_smoothing: "init env vp (with_smoothing x s) = with_smoothing x (init env vp s)"
  unfolding init_unfold beforePreload_smoothing preloadImages_smoothing fst_conv snd_conv
    detectDevice_smoothing selectFormat_smoothing
  by (simp add: ws finishInit_smoothing split: option.split)

lemma constructor_smoothing:
  "constructor (opts\<lparr>opt_smoothing := a\<rparr>) = with_smoothing (or_default a (1 / 10)) (constructor opts)"
  by (simp add: constructor_def with_smoothing_def)

lemma observe_smoothing: "observe (with_smoothing x s) = observe s"
  by (simp add: observe_def getMetrics_def getProgress_def ws)

text \<open>
  Claim C9. The \<open>smoothing\<close> option has no effect: two players constructed from options
  that differ only in \<open>smoothing\<close> and driven by the same events show the same velocity,
  current frame, target frame, canvas content and metrics at every point.
\<close>

theorem smoothing_has_no_effect:
  "observe (run env evs (new_ForestScroller env vp (opts\<lparr>opt_smoothing := a\<rparr>)))
     = observe (run env evs (new_ForestScroller env vp (opts\<lparr>opt_smoothing := b\<rparr>)))"
  by (simp add: new_ForestScroller_def constructor_smoothing init_smoothing run_smoothing
      observe_smoothing)


end
